theory Spec2Isabelle
  imports Complex_Main "HOL-Library.Word"
begin

section \<open>Drone (fire\_environment.py)\<close>

text \<open>
  The drone of \<^verbatim>\<open>fire_environment.py\<close>. Its position is a NumPy array of two 64-bit
  integers (\<^verbatim>\<open>np.random.randint\<close>, \<^verbatim>\<open>np.array\<close>), so the coordinates are 64-bit words,
  read as signed numbers by \<open>sint\<close>: adding to a coordinate wraps around at \<open>2\<^sup>6\<^sup>3\<close>.
  The grid size, the window size and the action ids are Python integers, which are
  unbounded; the clock and its increment are floats, modelled as reals. A snapshot of
  the \<^verbatim>\<open>state\<close> property is the tuple \<open>(x, y, fire_found, time)\<close>.
\<close>

type_synonym int64 = "64 word"

record drone =
  grid_size :: int
  window_size :: int
  time :: real
  dt :: real
  position :: "int64 \<times> int64"
  fire_found :: bool
  history :: "(int64 \<times> int64 \<times> bool \<times> real) list"

text \<open>
  The properties \<^verbatim>\<open>x\<close> and \<^verbatim>\<open>y\<close> are the two components of the position; they are
  written \<open>fst (position self)\<close> and \<open>snd (position self)\<close>.
\<close>

definition state :: "drone \<Rightarrow> int64 \<times> int64 \<times> bool \<times> real" where
  "state self = (fst (position self), snd (position self), fire_found self, time self)"

text \<open>
  \<^verbatim>\<open>Drone.__init__\<close>. The position is drawn at random from the grid; the model takes
  the drawn position as its last argument. The history starts with the state at
  construction.
\<close>

definition Drone :: "int \<Rightarrow> int \<Rightarrow> real \<Rightarrow> real \<Rightarrow> int64 \<times> int64 \<Rightarrow> drone" where
  "Drone n w t0 step_dt drawn =
     (let s = \<lparr>grid_size = n, window_size = w, time = t0, dt = step_dt, position = drawn,
                fire_found = False, history = []\<rparr>
      in s\<lparr>history := [state s]\<rparr>)"

text \<open>
  Arithmetic that mixes a 64-bit coordinate with a Python integer is 64-bit arithmetic
  when the Python integer fits in 64 bits. When it does not, what NumPy computes depends
  on its version (an exception, or a result of another type); the model then stops with
  \<open>OutOfInt64\<close> and says nothing of the outcome.
\<close>

datatype drone_error = OutOfInt64

definition fits_int64 :: "int \<Rightarrow> bool" where
  "fits_int64 k \<longleftrightarrow> - (2 ^ 63) \<le> k \<and> k < 2 ^ 63"

text \<open>
  \<^verbatim>\<open>min(bound, v)\<close> for a Python integer \<open>bound\<close> and a coordinate \<open>v\<close>, as the array
  then stores it: Python's \<^verbatim>\<open>min\<close> returns \<open>v\<close> when \<open>v < bound\<close> and \<open>bound\<close> otherwise.
  Likewise \<^verbatim>\<open>max(0, v)\<close> returns \<open>v\<close> when \<open>v > 0\<close> and 0 otherwise.
\<close>

definition py_min :: "int \<Rightarrow> int64 \<Rightarrow> drone_error + int64" where
  "py_min bound v =
     (if \<not> fits_int64 bound then Inl OutOfInt64
      else Inr (if sint v < bound then v else word_of_int bound))"

definition py_max0 :: "int64 \<Rightarrow> int64" where
  "py_max0 v = (if 0 < sint v then v else 0)"

text \<open>
  \<^verbatim>\<open>Drone.observe\<close>. The fire position is the environment's array of two 64-bit
  integers. The window bounds \<^verbatim>\<open>self.x - self.window_size // 2\<close> and
  \<^verbatim>\<open>self.x + self.window_size // 2\<close> are 64-bit results and wrap.
\<close>

definition observe :: "drone \<Rightarrow> int64 \<times> int64 \<Rightarrow> drone_error + bool" where
  "observe self fire_pos =
     (if \<not> fits_int64 (window_size self div 2) then Inl OutOfInt64
      else
        (let half = word_of_int (window_size self div 2);
             x_check = (sint (fst (position self) - half) \<le> sint (fst fire_pos)
                         \<and> sint (fst fire_pos) \<le> sint (fst (position self) + half));
             y_check = (sint (snd (position self) - half) \<le> sint (snd fire_pos)
                         \<and> sint (snd fire_pos) \<le> sint (snd (position self) + half))
         in if x_check \<and> y_check then Inr True else Inr False))"

text \<open>
  \<^verbatim>\<open>Drone.action\<close>: the drone after the call, and the value the call returns. The
  sums \<^verbatim>\<open>self.y + 1\<close>, \<^verbatim>\<open>self.x + 1\<close> and the differences \<^verbatim>\<open>self.y - 1\<close>,
  \<^verbatim>\<open>self.x - 1\<close> are 64-bit and wrap before \<^verbatim>\<open>min\<close> and \<^verbatim>\<open>max\<close> see them. The
  function ends in \<^verbatim>\<open>return None\<close> on every path, so the returned packet is \<open>None\<close>
  whatever the type of packets is.
\<close>

definition action ::
  "drone \<Rightarrow> int \<Rightarrow> int64 \<times> int64 \<Rightarrow> drone_error + drone \<times> 'p option" where
  "action self a fire_pos =
     (let x0 = fst (position self);
          y0 = snd (position self)
      in case (if a = 1 then
                 (case py_min (grid_size self - 1) (snd (position self) + 1) of
                    Inl e \<Rightarrow> Inl e | Inr y1 \<Rightarrow> Inr (x0, y1))
               else if a = 2 then Inr (x0, py_max0 (snd (position self) - 1))
               else if a = 3 then Inr (py_max0 (fst (position self) - 1), y0)
               else if a = 4 then
                 (case py_min (grid_size self - 1) (fst (position self) + 1) of
                    Inl e \<Rightarrow> Inl e | Inr x1 \<Rightarrow> Inr (x1, y0))
               else Inr (x0, y0)) of
           Inl e \<Rightarrow> Inl e
         | Inr p \<Rightarrow>
            (let s1 = self\<lparr>position := p\<rparr>
             in case observe s1 fire_pos of
                  Inl e \<Rightarrow> Inl e
                | Inr seen \<Rightarrow>
                   (let s2 = s1\<lparr>fire_found := seen\<rparr>;
                        s3 = s2\<lparr>time := time s2 + dt s2\<rparr>;
                        s4 = s3\<lparr>history := history s3 @ [state s3]\<rparr>
                    in Inr (s4, None))))"

section \<open>SearchEnv.step (environment.py)\<close>

text \<open>
  The orchestrator of \<^verbatim>\<open>environment.py\<close> works on drones that have a \<^verbatim>\<open>drone_id\<close> and a
  \<^verbatim>\<open>receive_telemetry\<close> method and whose \<^verbatim>\<open>action\<close> may return a packet, a dictionary
  with a \<^verbatim>\<open>sender_id\<close> entry. That drone class is not in the sources, so \<open>step\<close> takes
  what it uses of a drone as parameters: the methods and attributes below, over any type
  \<open>'d\<close> of drones and \<open>'p\<close> of packets. \<^verbatim>\<open>receive_telemetry\<close> draws channel noise from the
  global random generator, whose state is the type \<open>'r\<close>.
\<close>

record ('d, 'p, 'r) drone_ops =
  act :: "'d \<Rightarrow> int \<Rightarrow> int \<times> int \<Rightarrow> 'd \<times> 'p option"
  receive_telemetry :: "'r \<Rightarrow> 'd \<Rightarrow> 'p \<Rightarrow> real \<Rightarrow> 'd \<times> 'r"
  drone_id :: "'d \<Rightarrow> int"
  sender_id :: "'p \<Rightarrow> int"
  drone_x :: "'d \<Rightarrow> int"
  drone_y :: "'d \<Rightarrow> int"
  drone_time :: "'d \<Rightarrow> real"

text \<open>The fields of \<^verbatim>\<open>SearchEnv\<close> that \<open>step\<close> reads or writes (the rest is rendering).\<close>

record search_env =
  fire_pos :: "int \<times> int"
  communication_cost :: real
  movement_cost :: real
  total_cost :: real
  fire_extinguished :: bool
  time_to_extinguish :: "real option"
  total_communications :: int

text \<open>
  The first loop of \<open>step\<close>, over \<^verbatim>\<open>zip(drones, actions)\<close>: each drone acts; a returned
  packet is collected and costs a communication, otherwise an action other than 0 costs
  a movement. The loop state is the environment, the drones that have acted, the packets
  and the cost of the tick so far.
\<close>

fun execute_actions ::
  "('d, 'p, 'r) drone_ops \<Rightarrow> ('d \<times> int) list \<Rightarrow> search_env \<times> 'd list \<times> 'p list \<times> real \<Rightarrow>
     search_env \<times> 'd list \<times> 'p list \<times> real" where
  "execute_actions ops [] st = st"
| "execute_actions ops ((d, a) # rest) (env, acted, telemetry_packets, step_cost) =
     (case act ops d a (fire_pos env) of
        (d', Some packet) \<Rightarrow>
          execute_actions ops rest
            (env\<lparr>total_communications := total_communications env + 1\<rparr>,
             acted @ [d'], telemetry_packets @ [packet], step_cost + communication_cost env)
      | (d', None) \<Rightarrow>
          if a \<noteq> 0 then
            execute_actions ops rest
              (env, acted @ [d'], telemetry_packets, step_cost + movement_cost env)
          else execute_actions ops rest (env, acted @ [d'], telemetry_packets, step_cost))"

text \<open>The second loop: every packet goes to every drone but its sender, in list order.\<close>

fun deliver ::
  "('d, 'p, 'r) drone_ops \<Rightarrow> 'p \<Rightarrow> 'd list \<Rightarrow> 'r \<Rightarrow> 'd list \<times> 'r" where
  "deliver ops packet [] rng = ([], rng)"
| "deliver ops packet (d # ds) rng =
     (if drone_id ops d \<noteq> sender_id ops packet then
        (case receive_telemetry ops rng d packet (5 / 100) of (d', rng') \<Rightarrow>
          (case deliver ops packet ds rng' of (ds', rng'') \<Rightarrow> (d' # ds', rng'')))
      else
        (case deliver ops packet ds rng of (ds', rng'') \<Rightarrow> (d # ds', rng'')))"

fun distribute ::
  "('d, 'p, 'r) drone_ops \<Rightarrow> 'p list \<Rightarrow> 'd list \<Rightarrow> 'r \<Rightarrow> 'd list \<times> 'r" where
  "distribute ops [] ds rng = (ds, rng)"
| "distribute ops (packet # packets) ds rng =
     (case deliver ops packet ds rng of (ds', rng') \<Rightarrow> distribute ops packets ds' rng')"

text \<open>The third loop: a drone on the fire extinguishes it, unless that has happened.\<close>

fun check_fire :: "('d, 'p, 'r) drone_ops \<Rightarrow> 'd list \<Rightarrow> search_env \<Rightarrow> search_env" where
  "check_fire ops [] env = env"
| "check_fire ops (d # ds) env =
     (if drone_x ops d = fst (fire_pos env) \<and> drone_y ops d = snd (fire_pos env) then
        (if \<not> fire_extinguished env then
           check_fire ops ds
             (env\<lparr>fire_extinguished := True, time_to_extinguish := Some (drone_time ops d)\<rparr>)
         else check_fire ops ds env)
      else check_fire ops ds env)"

text \<open>
  \<open>step\<close> returns the pair \<open>(step_cost, fire_extinguished)\<close>; the model adds what the call
  has mutated: the environment, the drones and the random generator. A drone beyond
  the end of \<open>actions\<close> does not act (\<^verbatim>\<open>zip\<close> stops at the shorter list) but still
  receives telemetry and is checked against the fire. The drones of the list are taken
  to be distinct objects; the \<^verbatim>\<open>print\<close> calls of the third loop have no effect on the
  state and are left out.
\<close>

definition step ::
  "('d, 'p, 'r) drone_ops \<Rightarrow> search_env \<Rightarrow> 'r \<Rightarrow> 'd list \<Rightarrow> int list \<Rightarrow>
     (real \<times> bool) \<times> search_env \<times> 'd list \<times> 'r" where
  "step ops env rng drones actions =
     (case execute_actions ops (zip drones actions) (env, [], [], 0) of
        (env1, acted, telemetry_packets, step_cost) \<Rightarrow>
          (case distribute ops telemetry_packets (acted @ drop (length actions) drones) rng of
             (drones', rng') \<Rightarrow>
               (let env2 = check_fire ops drones' env1;
                    env3 = env2\<lparr>total_cost := total_cost env2 + step_cost\<rparr>
                in ((step_cost, fire_extinguished env3), env3, drones', rng'))))"

text \<open>
  A run of ticks, each with its own list of actions, on the drones the previous tick
  left.
\<close>

fun run_steps ::
  "('d, 'p, 'r) drone_ops \<Rightarrow> search_env \<Rightarrow> 'r \<Rightarrow> 'd list \<Rightarrow> int list list \<Rightarrow>
     search_env \<times> 'd list \<times> 'r" where
  "run_steps ops env rng drones [] = (env, drones, rng)"
| "run_steps ops env rng drones (actions # rest) =
     (case step ops env rng drones actions of
        (_, env', drones', rng') \<Rightarrow> run_steps ops env' rng' drones' rest)"

text \<open>The drone \<open>d\<close> stands on the fire.\<close>

definition on_fire :: "('d, 'p, 'r) drone_ops \<Rightarrow> search_env \<Rightarrow> 'd \<Rightarrow> bool" where
  "on_fire ops env d \<longleftrightarrow> drone_x ops d = fst (fire_pos env) \<and> drone_y ops d = snd (fire_pos env)"

section \<open>NumPy arrays, as far as the belief grid uses them\<close>

text \<open>
  The belief grid of \<^verbatim>\<open>belief_state.py\<close> is a two-dimensional NumPy array of floats.
  It is modelled as a list of rows over the reals: arithmetic is exact, and the
  one float value the reals lack (NaN, which NumPy produces for \<open>0 / 0\<close>) is an error
  value of the model. Python raises no exception in that case, it only warns; the model
  stops there because no real number stands for the result.
\<close>

datatype py_error = ValueError | IndexError | InvalidValue

type_synonym ndarray = "real list list"

text \<open>A grid of shape \<open>(r, c)\<close>: \<open>r\<close> rows, each of \<open>c\<close> cells.\<close>

definition rect :: "nat \<Rightarrow> nat \<Rightarrow> ndarray \<Rightarrow> bool" where
  "rect r c m \<longleftrightarrow> length m = r \<and> list_all (\<lambda>row. length row = c) m"

definition shape :: "ndarray \<Rightarrow> nat \<times> nat" where
  "shape m = (length m, case m of [] \<Rightarrow> 0 | row # _ \<Rightarrow> length row)"

text \<open>\<^verbatim>\<open>np.zeros((n, n))\<close> and \<^verbatim>\<open>np.ones((n, n))\<close>; a negative dimension raises.\<close>

definition np_zeros :: "int \<Rightarrow> py_error + ndarray" where
  "np_zeros n = (if n < 0 then Inl ValueError else Inr (replicate (nat n) (replicate (nat n) 0)))"

definition np_ones :: "int \<Rightarrow> py_error + ndarray" where
  "np_ones n = (if n < 0 then Inl ValueError else Inr (replicate (nat n) (replicate (nat n) 1)))"

text \<open>\<^verbatim>\<open>a.sum()\<close>\<close>

definition np_sum :: "ndarray \<Rightarrow> real" where
  "np_sum m = sum_list (map sum_list m)"

text \<open>
  \<^verbatim>\<open>a / s\<close> and \<^verbatim>\<open>a /= s\<close> for a scalar \<open>s\<close>. Dividing a non-empty array by zero gives
  NaN or infinities in NumPy; the model reports \<open>InvalidValue\<close>.
\<close>

definition div_scalar :: "ndarray \<Rightarrow> real \<Rightarrow> py_error + ndarray" where
  "div_scalar m s =
     (if s = 0 \<and> concat m \<noteq> [] then Inl InvalidValue
      else Inr (map (map (\<lambda>v. v / s)) m))"

text \<open>\<^verbatim>\<open>k * a\<close> for a scalar \<open>k\<close>\<close>

definition scale :: "real \<Rightarrow> ndarray \<Rightarrow> ndarray" where
  "scale k m = map (map (\<lambda>v. k * v)) m"

text \<open>
  \<^verbatim>\<open>a + b\<close> with NumPy's broadcasting of two-dimensional shapes: along each axis the
  sizes are equal or one of them is 1, otherwise the addition raises.
\<close>

definition broadcast_dim :: "nat \<Rightarrow> nat \<Rightarrow> py_error + nat" where
  "broadcast_dim a b =
     (if a = b then Inr a else if a = 1 then Inr b else if b = 1 then Inr a
      else Inl ValueError)"

definition np_add :: "ndarray \<Rightarrow> ndarray \<Rightarrow> py_error + ndarray" where
  "np_add a b =
     (case (shape a, shape b) of ((ra, ca), (rb, cb)) \<Rightarrow>
       (case broadcast_dim ra rb of Inl e \<Rightarrow> Inl e | Inr r \<Rightarrow>
         (case broadcast_dim ca cb of Inl e \<Rightarrow> Inl e | Inr c \<Rightarrow>
            Inr (map (\<lambda>i. map (\<lambda>j.
                   a ! (if ra = 1 then 0 else i) ! (if ca = 1 then 0 else j)
                   + b ! (if rb = 1 then 0 else i) ! (if cb = 1 then 0 else j))
                 [0..<c]) [0..<r]))))"

text \<open>
  An index into an axis of length \<open>n\<close>: negative indices count from the end, anything
  else out of range raises.
\<close>

definition py_index :: "nat \<Rightarrow> int \<Rightarrow> py_error + nat" where
  "py_index n i =
     (if 0 \<le> i \<and> i < int n then Inr (nat i)
      else if - int n \<le> i \<and> i < 0 then Inr (nat (i + int n))
      else Inl IndexError)"

text \<open>\<^verbatim>\<open>a[i, j] = v\<close>\<close>

definition setitem :: "ndarray \<Rightarrow> int \<Rightarrow> int \<Rightarrow> real \<Rightarrow> py_error + ndarray" where
  "setitem m i j v =
     (case py_index (length m) i of Inl e \<Rightarrow> Inl e | Inr r \<Rightarrow>
       (case py_index (length (m ! r)) j of Inl e \<Rightarrow> Inl e | Inr c \<Rightarrow>
          Inr (m[r := (m ! r)[c := v]])))"

text \<open>\<^verbatim>\<open>range(a, b)\<close>\<close>

definition py_range :: "int \<Rightarrow> int \<Rightarrow> int list" where
  "py_range a b = [a..b - 1]"

text \<open>
  \<^verbatim>\<open>np.argmax\<close> over the flattened array: a left-to-right scan that replaces the best
  entry only by a strictly larger one, so the first maximum wins. It raises on an empty
  array.
\<close>

fun argmax_scan :: "real list \<Rightarrow> nat \<Rightarrow> nat \<Rightarrow> real \<Rightarrow> nat" where
  "argmax_scan [] i best_i best_v = best_i"
| "argmax_scan (v # vs) i best_i best_v =
     (if best_v < v then argmax_scan vs (Suc i) i v
      else argmax_scan vs (Suc i) best_i best_v)"

definition np_argmax :: "ndarray \<Rightarrow> py_error + nat" where
  "np_argmax m =
     (case concat m of [] \<Rightarrow> Inl ValueError | v # vs \<Rightarrow> Inr (argmax_scan vs 1 0 v))"

text \<open>\<^verbatim>\<open>np.unravel_index(k, (r, c))\<close> in row-major order\<close>

definition np_unravel_index :: "nat \<Rightarrow> nat \<times> nat \<Rightarrow> py_error + (int \<times> int)" where
  "np_unravel_index k shp =
     (case shp of (r, c) \<Rightarrow>
        if k < r * c then Inr (int (k div c), int (k mod c)) else Inl ValueError)"

section \<open>BeliefState (belief\_state.py)\<close>

record belief_state =
  grid_size :: int
  belief :: ndarray
  fire_found :: bool
  fire_location :: "(int \<times> int) option"

text \<open>\<^verbatim>\<open>BeliefState.__init__\<close>: the uniform prior.\<close>

definition BeliefState :: "int \<Rightarrow> py_error + belief_state" where
  "BeliefState n =
     (case np_ones n of Inl e \<Rightarrow> Inl e | Inr m \<Rightarrow>
       (case div_scalar m (of_int (n * n)) of Inl e \<Rightarrow> Inl e | Inr b \<Rightarrow>
          Inr \<lparr>grid_size = n, belief = b, fire_found = False, fire_location = None\<rparr>))"

text \<open>
  The cells the two nested \<^verbatim>\<open>for\<close> loops of \<^verbatim>\<open>update_with_observation\<close> visit, in the
  order they visit them: \<open>i\<close> in the outer loop, \<open>j\<close> in the inner one.
\<close>

definition window_cells :: "int \<Rightarrow> int \<times> int \<Rightarrow> int \<Rightarrow> (int \<times> int) list" where
  "window_cells n drone_position wsize =
     (case drone_position of (x, y) \<Rightarrow>
        List.product
          (py_range (max 0 (x - wsize div 2)) (min n (x + wsize div 2 + 1)))
          (py_range (max 0 (y - wsize div 2)) (min n (y + wsize div 2 + 1))))"

text \<open>The loop body \<^verbatim>\<open>self.belief[i, j] = v\<close>, run over the cells in order.\<close>

fun assign_cells :: "ndarray \<Rightarrow> (int \<times> int) list \<Rightarrow> real \<Rightarrow> py_error + ndarray" where
  "assign_cells m [] v = Inr m"
| "assign_cells m ((i, j) # cells) v =
     (case setitem m i j v of Inl e \<Rightarrow> Inl e | Inr m' \<Rightarrow> assign_cells m' cells v)"

definition update_with_observation ::
  "belief_state \<Rightarrow> int \<times> int \<Rightarrow> int \<Rightarrow> bool \<Rightarrow> py_error + belief_state" where
  "update_with_observation self drone_position wsize fire_observed =
     (if fire_observed then
        (case np_zeros (grid_size self) of Inl e \<Rightarrow> Inl e | Inr z \<Rightarrow>
          (case assign_cells z (window_cells (grid_size self) drone_position wsize) 1 of
             Inl e \<Rightarrow> Inl e
           | Inr b \<Rightarrow>
              (case div_scalar b (np_sum b) of Inl e \<Rightarrow> Inl e | Inr b' \<Rightarrow>
                 Inr (self\<lparr>belief := b', fire_found := True\<rparr>))))
      else
        (case assign_cells (belief self)
                (window_cells (grid_size self) drone_position wsize) 0 of
           Inl e \<Rightarrow> Inl e
         | Inr b \<Rightarrow>
            if 0 < np_sum b then
              (case div_scalar b (np_sum b) of Inl e \<Rightarrow> Inl e | Inr b' \<Rightarrow>
                 Inr (self\<lparr>belief := b'\<rparr>))
            else Inr (self\<lparr>belief := b\<rparr>)))"

definition get_most_likely_location :: "belief_state \<Rightarrow> py_error + (int \<times> int)" where
  "get_most_likely_location self =
     (case np_argmax (belief self) of Inl e \<Rightarrow> Inl e
      | Inr k \<Rightarrow> np_unravel_index k (shape (belief self)))"

definition merge_with_other_belief ::
  "belief_state \<Rightarrow> belief_state \<Rightarrow> real \<Rightarrow> py_error + belief_state" where
  "merge_with_other_belief self other_belief weight =
     (if fire_found other_belief then
        Inr (self\<lparr>belief := belief other_belief, fire_found := True,
                  fire_location := fire_location other_belief\<rparr>)
      else
        (case np_add (scale weight (belief self))
                (scale (1 - weight) (belief other_belief)) of
           Inl e \<Rightarrow> Inl e
         | Inr b \<Rightarrow>
            if 0 < np_sum b then
              (case div_scalar b (np_sum b) of Inl e \<Rightarrow> Inl e | Inr b' \<Rightarrow>
                 Inr (self\<lparr>belief := b'\<rparr>))
            else Inr (self\<lparr>belief := b\<rparr>)))"

text \<open>A run of local observation updates, stopping at the first error.\<close>

fun update_all ::
  "belief_state \<Rightarrow> ((int \<times> int) \<times> int \<times> bool) list \<Rightarrow> py_error + belief_state" where
  "update_all self [] = Inr self"
| "update_all self ((p, w, obs) # rest) =
     (case update_with_observation self p w obs of Inl e \<Rightarrow> Inl e
      | Inr self' \<Rightarrow> update_all self' rest)"

text \<open>
  The sensing footprint in the words of the specification: the square
  \<open>[x - w/2, x + w/2] \<times> [y - w/2, y + w/2]\<close> (integer division) intersected with the
  grid, and the number of its cells.
\<close>

definition in_footprint :: "int \<Rightarrow> int \<times> int \<Rightarrow> int \<Rightarrow> int \<times> int \<Rightarrow> bool" where
  "in_footprint n pos w c =
     (case (pos, c) of ((x, y), (i, j)) \<Rightarrow>
        x - w div 2 \<le> i \<and> i \<le> x + w div 2 \<and> y - w div 2 \<le> j \<and> j \<le> y + w div 2
        \<and> 0 \<le> i \<and> i < n \<and> 0 \<le> j \<and> j < n)"

definition grid_cells :: "int \<Rightarrow> (int \<times> int) list" where
  "grid_cells n = List.product [0..n - 1] [0..n - 1]"

definition footprint_size :: "int \<Rightarrow> int \<times> int \<Rightarrow> int \<Rightarrow> nat" where
  "footprint_size n pos w = length (filter (in_footprint n pos w) (grid_cells n))"

text \<open>The cell \<open>(i, j)\<close> of a grid.\<close>

definition cell :: "ndarray \<Rightarrow> int \<Rightarrow> int \<Rightarrow> real" where
  "cell m i j = m ! nat i ! nat j"

text \<open>
  What a negative observation leaves of a grid: the footprint cells cleared, the other
  cells as they were; and the mass that remains, the sum over all grid cells.
\<close>

definition cleared :: "int \<Rightarrow> int \<times> int \<Rightarrow> int \<Rightarrow> ndarray \<Rightarrow> int \<times> int \<Rightarrow> real" where
  "cleared n pos w m c = (if in_footprint n pos w c then 0 else cell m (fst c) (snd c))"

definition remaining_mass :: "int \<Rightarrow> int \<times> int \<Rightarrow> int \<Rightarrow> ndarray \<Rightarrow> real" where
  "remaining_mass n pos w m = sum_list (map (cleared n pos w m) (grid_cells n))"

text \<open>No cell of the grid is negative.\<close>

definition nonneg :: "ndarray \<Rightarrow> bool" where
  "nonneg m \<longleftrightarrow> list_all (list_all (\<lambda>v. 0 \<le> v)) m"

text \<open>
  The weighted average of two grids at a cell, in the words of the specification, and
  its sum over all grid cells.
\<close>

definition weighted_average :: "real \<Rightarrow> ndarray \<Rightarrow> ndarray \<Rightarrow> int \<times> int \<Rightarrow> real" where
  "weighted_average w a b c = w * cell a (fst c) (snd c) + (1 - w) * cell b (fst c) (snd c)"

definition average_mass :: "int \<Rightarrow> real \<Rightarrow> ndarray \<Rightarrow> ndarray \<Rightarrow> real" where
  "average_mass n w a b = sum_list (map (weighted_average w a b) (grid_cells n))"

text \<open>
  The invariant of the data model: an \<open>N \<times> N\<close> grid of non-negative cells that sums to
  1, or to 0 in the degenerate state.
\<close>

definition belief_invariant :: "belief_state \<Rightarrow> bool" where
  "belief_invariant s \<longleftrightarrow>
     0 \<le> grid_size s \<and> rect (nat (grid_size s)) (nat (grid_size s)) (belief s)
     \<and> nonneg (belief s) \<and> (np_sum (belief s) = 1 \<or> np_sum (belief s) = 0)"

section \<open>The packets of a tick, and an example agent\<close>

text \<open>
  In a tick, the pairs of \<^verbatim>\<open>zip(drones, actions)\<close> whose action returns a packet, and
  those whose action returns none and is not 0 (stay).
\<close>

definition returns_packet :: "('d, 'p, 'r) drone_ops \<Rightarrow> search_env \<Rightarrow> 'd \<times> int \<Rightarrow> bool" where
  "returns_packet ops env da \<longleftrightarrow> snd (act ops (fst da) (snd da) (fire_pos env)) \<noteq> None"

definition moves_silently :: "('d, 'p, 'r) drone_ops \<Rightarrow> search_env \<Rightarrow> 'd \<times> int \<Rightarrow> bool" where
  "moves_silently ops env da \<longleftrightarrow>
     snd (act ops (fst da) (snd da) (fire_pos env)) = None \<and> snd da \<noteq> 0"

text \<open>
  Modelled from the spec: the Agent of section 4.2 as far as \<open>step\<close> uses it, since the
  drone class that \<^verbatim>\<open>environment.py\<close> drives is not among the sources. An agent is a
  drone of \<^verbatim>\<open>fire_environment.py\<close> with an id; it moves and senses as \<open>action\<close> does and,
  on action 5, returns the packet \<open>(sender id, position, window size, fire observed,
  time)\<close>; an agent whose \<open>action\<close> the 64-bit model does not carry out stays as it is.
  Receiving telemetry changes neither position nor clock and uses no randomness. It
  serves as a concrete input on which \<open>step\<close> is run; the theorems about \<open>step\<close> hold
  for every choice of the drone operations.
\<close>

definition example_ops ::
  "(int \<times> drone, int \<times> (int \<times> int) \<times> int \<times> bool \<times> real, unit) drone_ops" where
  "example_ops =
     \<lparr>act = (\<lambda>agent a fp.
              (case action (snd agent) a (word_of_int (fst fp), word_of_int (snd fp)) of
                 Inl e \<Rightarrow> (agent, None)
               | Inr (d', none :: unit option) \<Rightarrow>
                  ((fst agent, d'),
                   if a = 5 then
                     Some (fst agent, (sint (fst (position d')), sint (snd (position d'))),
                           window_size d', drone.fire_found d', time d')
                   else None))),
      receive_telemetry = (\<lambda>rng agent packet noise. (agent, rng)),
      drone_id = fst,
      sender_id = fst,
      drone_x = (\<lambda>agent. sint (fst (position (snd agent)))),
      drone_y = (\<lambda>agent. sint (snd (position (snd agent)))),
      drone_time = (\<lambda>agent. time (snd agent))\<rparr>"

section \<open>Grids: shape, cells and sums\<close>

lemma setitem_in_range:
  assumes "0 \<le> i" "i < int (length m)" "0 \<le> j" "j < int (length (m ! nat i))"
  shows "setitem m i j v = Inr (m[nat i := (m ! nat i)[nat j := v]])"
  using assms by (simp add: setitem_def py_index_def)

lemma rect_update:
  assumes "rect r c m" "a < r"
  shows "rect r c (m[a := (m ! a)[b := v]])"
  using assms unfolding rect_def list_all_iff
  by (auto dest!: set_update_subset_insert[THEN subsetD])

lemma rect_row: "rect r c m \<Longrightarrow> a < r \<Longrightarrow> length (m ! a) = c"
  unfolding rect_def list_all_iff by auto

lemma cell_update:
  assumes "rect r c m" "0 \<le> a" "a < int r" "0 \<le> b" "b < int c" "0 \<le> i" "i < int r" "0 \<le> j" "j < int c"
  shows "cell (m[nat a := (m ! nat a)[nat b := v]]) i j = (if i = a \<and> j = b then v else cell m i j)"
proof -
  have la: "nat a < length m" using assms by (simp add: rect_def)
  have lb: "nat b < length (m ! nat a)" using assms rect_row[OF assms(1), of "nat a"] by simp
  show ?thesis
    using la lb assms(2,4,6,8) unfolding cell_def
    by (auto simp: nth_list_update nat_eq_iff)
qed

lemma assign_cells_ok:
  assumes "rect r c m"
    and "\<forall>p \<in> set cells. 0 \<le> fst p \<and> fst p < int r \<and> 0 \<le> snd p \<and> snd p < int c"
  shows "\<exists>m'. assign_cells m cells v = Inr m' \<and> rect r c m' \<and>
           (\<forall>i j. 0 \<le> i \<and> i < int r \<and> 0 \<le> j \<and> j < int c \<longrightarrow>
              cell m' i j = (if (i, j) \<in> set cells then v else cell m i j))"
  using assms
proof (induction cells arbitrary: m)
  case Nil
  then show ?case by simp
next
  case (Cons p cells)
  obtain a b where p: "p = (a, b)" by (cases p)
  from Cons.prems(2) p have ab: "0 \<le> a" "a < int r" "0 \<le> b" "b < int c" by auto
  let ?m1 = "m[nat a := (m ! nat a)[nat b := v]]"
  have len: "length m = r" using Cons.prems(1) by (simp add: rect_def)
  have row: "length (m ! nat a) = c" using rect_row[OF Cons.prems(1), of "nat a"] ab by simp
  have s: "setitem m a b v = Inr ?m1"
    using ab len row by (intro setitem_in_range) auto
  have r1: "rect r c ?m1" using rect_update[OF Cons.prems(1), of "nat a"] ab by simp
  from Cons.IH[OF r1] Cons.prems(2)
  obtain m' where m': "assign_cells ?m1 cells v = Inr m'" "rect r c m'"
    "\<forall>i j. 0 \<le> i \<and> i < int r \<and> 0 \<le> j \<and> j < int c \<longrightarrow>
              cell m' i j = (if (i, j) \<in> set cells then v else cell ?m1 i j)"
    by auto
  have "assign_cells m (p # cells) v = Inr m'" using s m'(1) p by simp
  moreover have "\<forall>i j. 0 \<le> i \<and> i < int r \<and> 0 \<le> j \<and> j < int c \<longrightarrow>
              cell m' i j = (if (i, j) \<in> set (p # cells) then v else cell m i j)"
    using m'(3) cell_update[OF Cons.prems(1) ab] p by auto
  ultimately show ?case using m'(2) by blast
qed

lemma set_py_range: "set (py_range a b) = {a..<b}"
  by (auto simp: py_range_def)

lemma window_cells_iff:
  "(i, j) \<in> set (window_cells n pos w) \<longleftrightarrow> in_footprint n pos w (i, j)"
  by (cases pos) (auto simp: window_cells_def in_footprint_def set_py_range)

lemma sum_list_product:
  "sum_list (map f (List.product xs ys)) = sum_list (map (\<lambda>x. sum_list (map (\<lambda>y. f (x, y)) ys)) xs)"
  by (induction xs) (simp_all add: comp_def)

lemma length_upto0: "length [0..n - 1] = nat n"
  by simp

lemma rect_as_map:
  assumes "rect (nat n) (nat n) m"
  shows "m = map (\<lambda>i. map (\<lambda>j. cell m i j) [0..n - 1]) [0..n - 1]"
proof (rule nth_equalityI)
  show "length m = length (map (\<lambda>i. map (\<lambda>j. cell m i j) [0..n - 1]) [0..n - 1])"
    using assms by (simp add: rect_def)
next
  fix a assume a: "a < length m"
  then have an: "a < nat n" using assms by (simp add: rect_def)
  have row: "length (m ! a) = nat n" using rect_row[OF assms an] .
  have "m ! a = map (\<lambda>j. cell m (int a) j) [0..n - 1]"
  proof (rule nth_equalityI)
    show "length (m ! a) = length (map (\<lambda>j. cell m (int a) j) [0..n - 1])"
      using row by simp
  next
    fix b assume "b < length (m ! a)"
    then have "b < nat n" using row by simp
    then show "m ! a ! b = map (\<lambda>j. cell m (int a) j) [0..n - 1] ! b"
      by (simp add: cell_def)
  qed
  then show "m ! a = map (\<lambda>i. map (\<lambda>j. cell m i j) [0..n - 1]) [0..n - 1] ! a"
    using an by simp
qed

lemma np_sum_cells:
  assumes "rect (nat n) (nat n) m"
  shows "np_sum m = sum_list (map (\<lambda>p. cell m (fst p) (snd p)) (grid_cells n))"
proof -
  have "np_sum m = np_sum (map (\<lambda>i. map (\<lambda>j. cell m i j) [0..n - 1]) [0..n - 1])"
    using rect_as_map[OF assms] by simp
  also have "\<dots> = sum_list (map (\<lambda>p. cell m (fst p) (snd p)) (grid_cells n))"
    by (simp add: np_sum_def grid_cells_def sum_list_product comp_def)
  finally show ?thesis .
qed

lemma sum_list_indicator:
  "sum_list (map (\<lambda>p. if P p then (1::real) else 0) xs) = real (length (filter P xs))"
  by (induction xs) simp_all

lemma grid_cells_iff: "(i, j) \<in> set (grid_cells n) \<longleftrightarrow> 0 \<le> i \<and> i < n \<and> 0 \<le> j \<and> j < n"
  by (auto simp: grid_cells_def)

lemma sum_list_div: "sum_list (map (\<lambda>v. v / s) xs) = sum_list xs / (s::real)"
  by (induction xs) (simp_all add: add_divide_distrib)

lemma np_sum_div: "np_sum (map (map (\<lambda>v. v / s)) m) = np_sum m / s"
  by (induction m) (simp_all add: np_sum_def sum_list_div add_divide_distrib comp_def)

lemma rect_map: "rect r c m \<Longrightarrow> rect r c (map (map f) m)"
  by (simp add: rect_def list_all_iff)

lemma cell_map:
  assumes "rect r c m" "0 \<le> i" "i < int r" "0 \<le> j" "j < int c"
  shows "cell (map (map f) m) i j = f (cell m i j)"
proof -
  have "nat i < length m" using assms by (simp add: rect_def)
  moreover have "nat j < length (m ! nat i)" using rect_row[OF assms(1), of "nat i"] assms by simp
  ultimately show ?thesis by (simp add: cell_def)
qed

lemma footprint_size_pos:
  assumes "0 \<le> x" "x < n" "0 \<le> y" "y < n" "0 \<le> w"
  shows "0 < footprint_size n (x, y) w"
proof -
  have "0 \<le> w div 2" using assms(5) by simp
  then have "in_footprint n (x, y) w (x, y)" using assms by (simp add: in_footprint_def)
  moreover have "(x, y) \<in> set (grid_cells n)" using assms by (simp add: grid_cells_iff)
  ultimately have "filter (in_footprint n (x, y) w) (grid_cells n) \<noteq> []"
    by (auto simp: filter_empty_conv)
  then show ?thesis by (simp add: footprint_size_def)
qed

lemma rect_zeros: "0 \<le> n \<Longrightarrow> rect (nat n) (nat n) (replicate (nat n) (replicate (nat n) v))"
  by (simp add: rect_def list_all_iff)

lemma cell_replicate:
  "0 \<le> i \<Longrightarrow> i < n \<Longrightarrow> 0 \<le> j \<Longrightarrow> j < n \<Longrightarrow> cell (replicate (nat n) (replicate (nat n) v)) i j = v"
  by (simp add: cell_def)

lemma window_cells_in_grid:
  "p \<in> set (window_cells n pos w) \<Longrightarrow> 0 \<le> fst p \<and> fst p < n \<and> 0 \<le> snd p \<and> snd p < n"
  by (cases pos; cases p) (auto simp: window_cells_def set_py_range)

lemma div_scalar_nonzero: "s \<noteq> 0 \<Longrightarrow> div_scalar m s = Inr (map (map (\<lambda>v. v / s)) m)"
  by (simp add: div_scalar_def)

text \<open>The grid after the loops of either branch: the footprint cells hold \<open>v\<close>.\<close>

lemma assign_window:
  assumes "rect (nat n) (nat n) m" "0 \<le> n"
  shows "\<exists>m'. assign_cells m (window_cells n pos w) v = Inr m' \<and> rect (nat n) (nat n) m' \<and>
           (\<forall>i j. 0 \<le> i \<and> i < n \<and> 0 \<le> j \<and> j < n \<longrightarrow>
              cell m' i j = (if in_footprint n pos w (i, j) then v else cell m i j))"
proof -
  have "\<forall>p \<in> set (window_cells n pos w).
          0 \<le> fst p \<and> fst p < int (nat n) \<and> 0 \<le> snd p \<and> snd p < int (nat n)"
    using window_cells_in_grid[of _ n pos w] assms(2) by auto
  from assign_cells_ok[OF assms(1) this, of v] show ?thesis
    using assms(2) by (simp add: window_cells_iff)
qed

lemma np_sum_indicator:
  assumes "rect (nat n) (nat n) m"
    and "\<forall>i j. 0 \<le> i \<and> i < n \<and> 0 \<le> j \<and> j < n \<longrightarrow> cell m i j = (if P (i, j) then 1 else 0)"
  shows "np_sum m = real (length (filter P (grid_cells n)))"
proof -
  have "map (\<lambda>p. cell m (fst p) (snd p)) (grid_cells n) = map (\<lambda>p. if P p then 1 else 0) (grid_cells n)"
    using assms(2) by (intro map_cong refl) (auto simp: grid_cells_iff)
  then have "sum_list (map (\<lambda>p. cell m (fst p) (snd p)) (grid_cells n))
      = sum_list (map (\<lambda>p. if P p then (1::real) else 0) (grid_cells n))"
    by (rule arg_cong)
  then show ?thesis
    using np_sum_cells[OF assms(1)] sum_list_indicator[of P "grid_cells n"] by simp
qed


lemma nonneg_cell:
  assumes "nonneg m" "rect r c m" "0 \<le> i" "i < int r" "0 \<le> j" "j < int c"
  shows "0 \<le> cell m i j"
proof -
  have "nat i < length m" using assms by (simp add: rect_def)
  moreover have "nat j < length (m ! nat i)" using rect_row[OF assms(2), of "nat i"] assms by simp
  ultimately show ?thesis using assms(1) unfolding nonneg_def cell_def list_all_iff
    by (meson nth_mem)
qed

lemma np_sum_pointwise:
  assumes "rect (nat n) (nat n) m"
    and "\<forall>i j. 0 \<le> i \<and> i < n \<and> 0 \<le> j \<and> j < n \<longrightarrow> cell m i j = f (i, j)"
  shows "np_sum m = sum_list (map f (grid_cells n))"
proof -
  have "map (\<lambda>p. cell m (fst p) (snd p)) (grid_cells n) = map f (grid_cells n)"
    using assms(2) by (intro map_cong refl) (auto simp: grid_cells_iff)
  then have "sum_list (map (\<lambda>p. cell m (fst p) (snd p)) (grid_cells n)) = sum_list (map f (grid_cells n))"
    by (rule arg_cong)
  then show ?thesis using np_sum_cells[OF assms(1)] by simp
qed

lemma shape_rect: "rect r c m \<Longrightarrow> 0 < r \<Longrightarrow> shape m = (r, c)"
  by (cases m) (auto simp: rect_def shape_def)

lemma shape_empty: "rect 0 c m \<Longrightarrow> shape m = (0, 0)"
  by (simp add: rect_def shape_def)

lemma np_add_same_shape:
  assumes "rect r c a" "rect r c b"
  shows "np_add a b = Inr (map (\<lambda>i. map (\<lambda>j. a ! i ! j + b ! i ! j) [0..<c]) [0..<r])"
proof (cases "r = 0")
  case True
  then show ?thesis using assms shape_empty[of c a] shape_empty[of c b]
    by (simp add: np_add_def broadcast_dim_def)
next
  case False
  then have sa: "shape a = (r, c)" and sb: "shape b = (r, c)"
    using assms by (simp_all add: shape_rect)
  have "map (\<lambda>i. map (\<lambda>j. a ! (if r = 1 then 0 else i) ! (if c = 1 then 0 else j)
                   + b ! (if r = 1 then 0 else i) ! (if c = 1 then 0 else j)) [0..<c]) [0..<r]
      = map (\<lambda>i. map (\<lambda>j. a ! i ! j + b ! i ! j) [0..<c]) [0..<r]"
    by (intro map_cong refl) auto
  then show ?thesis using sa sb by (simp add: np_add_def broadcast_dim_def)
qed

lemma rect_tabulate: "rect r c (map (\<lambda>i. map (\<lambda>j. f i j) [0..<c]) [0..<r])"
  by (simp add: rect_def list_all_iff)

lemma cell_tabulate:
  "0 \<le> i \<Longrightarrow> i < int r \<Longrightarrow> 0 \<le> j \<Longrightarrow> j < int c \<Longrightarrow>
     cell (map (\<lambda>i. map (\<lambda>j. f i j) [0..<c]) [0..<r]) i j = f (nat i) (nat j)"
proof -
  assume "0 \<le> i" "i < int r" "0 \<le> j" "j < int c"
  then have "nat i < r" "nat j < c" by simp_all
  then show ?thesis by (simp add: cell_def)
qed

lemma rect_scale: "rect r c m \<Longrightarrow> rect r c (scale k m)"
  by (simp add: scale_def rect_map)

lemma cell_scale:
  "rect r c m \<Longrightarrow> 0 \<le> i \<Longrightarrow> i < int r \<Longrightarrow> 0 \<le> j \<Longrightarrow> j < int c \<Longrightarrow>
     cell (scale k m) i j = k * cell m i j"
  by (simp add: scale_def cell_map)

text \<open>The weighted average of two grids of one shape, cell by cell.\<close>

lemma np_add_scaled:
  assumes "rect r c a" "rect r c b"
  shows "\<exists>m. np_add (scale w a) (scale (1 - w) b) = Inr m \<and> rect r c m \<and>
           (\<forall>i j. 0 \<le> i \<and> i < int r \<and> 0 \<le> j \<and> j < int c \<longrightarrow>
              cell m i j = weighted_average w a b (i, j))"
proof -
  let ?m = "map (\<lambda>i. map (\<lambda>j. scale w a ! i ! j + scale (1 - w) b ! i ! j) [0..<c]) [0..<r]"
  have "np_add (scale w a) (scale (1 - w) b) = Inr ?m"
    using np_add_same_shape[OF rect_scale[OF assms(1)] rect_scale[OF assms(2)]] .
  moreover have "rect r c ?m" by (rule rect_tabulate)
  moreover have "\<forall>i j. 0 \<le> i \<and> i < int r \<and> 0 \<le> j \<and> j < int c \<longrightarrow>
              cell ?m i j = weighted_average w a b (i, j)"
  proof (intro allI impI)
    fix i j assume ij: "0 \<le> i \<and> i < int r \<and> 0 \<le> j \<and> j < int c"
    then have "cell ?m i j = cell (scale w a) i j + cell (scale (1 - w) b) i j"
      by (simp add: cell_tabulate) (simp add: cell_def)
    then show "cell ?m i j = weighted_average w a b (i, j)"
      using ij cell_scale[OF assms(1), of i j w] cell_scale[OF assms(2), of i j "1 - w"]
      by (simp add: weighted_average_def)
  qed
  ultimately show ?thesis by blast
qed

lemma argmax_scan_first_max:
  assumes "i \<le> length xs" "vs = drop i xs" "best_i < i" "xs ! best_i = best_v"
    and "\<forall>t < i. xs ! t \<le> best_v" "\<forall>t < best_i. xs ! t < best_v"
  shows "argmax_scan vs i best_i best_v < length xs
         \<and> (\<forall>t < length xs. xs ! t \<le> xs ! argmax_scan vs i best_i best_v)
         \<and> (\<forall>t < argmax_scan vs i best_i best_v. xs ! t < xs ! argmax_scan vs i best_i best_v)"
  using assms
proof (induction vs arbitrary: i best_i best_v)
  case Nil
  then have "i = length xs" by simp
  with Nil show ?case by simp
next
  case (Cons v vs)
  from Cons.prems(1,2) have il: "i < length xs"
    by (metis drop_all leI list.distinct(1))
  have v: "xs ! i = v" and vs: "vs = drop (Suc i) xs"
    using Cons.prems(2) il by (simp_all add: Cons_nth_drop_Suc[symmetric])
  show ?case
  proof (cases "best_v < v")
    case True
    have a: "\<forall>t < Suc i. xs ! t \<le> v"
      using Cons.prems(5) True v by (auto simp: less_Suc_eq)
    have b: "\<forall>t < i. xs ! t < v"
      using Cons.prems(5) True by (meson le_less_trans)
    from Cons.IH[of "Suc i" i v] il vs v a b True
    show ?thesis by simp
  next
    case False
    have a: "\<forall>t < Suc i. xs ! t \<le> best_v"
      using Cons.prems(5) False v by (auto simp: less_Suc_eq)
    from Cons.IH[of "Suc i" best_i best_v] il vs a Cons.prems(3,4,6) False
    show ?thesis by simp
  qed
qed

lemma np_argmax_first_max:
  assumes "concat m \<noteq> []"
  shows "\<exists>k. np_argmax m = Inr k \<and> k < length (concat m)
           \<and> (\<forall>t < length (concat m). concat m ! t \<le> concat m ! k)
           \<and> (\<forall>t < k. concat m ! t < concat m ! k)"
proof -
  obtain v vs where c: "concat m = v # vs" using assms by (cases "concat m") auto
  have "argmax_scan vs 1 0 v < length (concat m)
         \<and> (\<forall>t < length (concat m). concat m ! t \<le> concat m ! argmax_scan vs 1 0 v)
         \<and> (\<forall>t < argmax_scan vs 1 0 v. concat m ! t < concat m ! argmax_scan vs 1 0 v)"
    by (rule argmax_scan_first_max) (simp_all add: c)
  then show ?thesis by (simp add: np_argmax_def c)
qed

lemma length_concat_rect: "rect r c m \<Longrightarrow> length (concat m) = r * c"
  by (induction m arbitrary: r) (auto simp: rect_def)

lemma concat_nth_rect:
  "rect r c m \<Longrightarrow> a < r \<Longrightarrow> b < c \<Longrightarrow> concat m ! (a * c + b) = m ! a ! b"
proof (induction m arbitrary: r a)
  case Nil
  then show ?case by (simp add: rect_def)
next
  case (Cons row m)
  then have lr: "length row = c" and rm: "rect (r - 1) c m" by (auto simp: rect_def)
  show ?case
  proof (cases a)
    case 0
    then show ?thesis using Cons.prems(3) lr by (simp add: nth_append)
  next
    case (Suc a')
    then have "a' < r - 1" using Cons.prems(2) by simp
    from Cons.IH[OF rm this Cons.prems(3)] show ?thesis
      using Suc lr by (simp add: nth_append)
  qed
qed

lemma flat_index_less: "a < r \<Longrightarrow> b < c \<Longrightarrow> a * c + b < r * (c::nat)"
proof -
  assume "a < r" "b < c"
  then have "a * c + b < Suc a * c" by simp
  also have "\<dots> \<le> r * c" using \<open>a < r\<close> by (intro mult_le_mono1) simp
  finally show ?thesis .
qed

lemma most_likely_nat:
  assumes "rect r c m" "0 < r" "0 < c"
  shows "\<exists>a b. np_argmax m = Inr (a * c + b) \<and> a < r \<and> b < c
           \<and> np_unravel_index (a * c + b) (shape m) = Inr (int a, int b)
           \<and> (\<forall>a' b'. a' < r \<and> b' < c \<longrightarrow> m ! a' ! b' \<le> m ! a ! b)
           \<and> (\<forall>a' b'. a' < r \<and> b' < c \<and> m ! a' ! b' = m ! a ! b \<longrightarrow>
                  a < a' \<or> (a = a' \<and> b \<le> b'))"
proof -
  have len: "length (concat m) = r * c" using assms(1) by (rule length_concat_rect)
  then have "length (concat m) \<noteq> 0" using assms(2,3) by simp
  then have "concat m \<noteq> []" by (metis list.size(3))
  from np_argmax_first_max[OF this] len
  obtain k where k: "np_argmax m = Inr k" "k < r * c"
    and kmax: "\<forall>t < r * c. concat m ! t \<le> concat m ! k"
    and kfirst: "\<forall>t < k. concat m ! t < concat m ! k"
    by auto
  define a b where "a = k div c" and "b = k mod c"
  have kab: "k = a * c + b" by (simp add: a_def b_def)
  have ar: "a < r" using k(2) unfolding a_def by (rule less_mult_imp_div_less)
  have bc: "b < c" using assms(3) by (simp add: b_def)
  have ck: "concat m ! k = m ! a ! b"
    using concat_nth_rect[OF assms(1) ar bc] kab by simp
  have un: "np_unravel_index (a * c + b) (shape m) = Inr (int a, int b)"
    using ar bc shape_rect[OF assms(1,2)] by (simp add: np_unravel_index_def flat_index_less)
  have mx: "\<forall>a' b'. a' < r \<and> b' < c \<longrightarrow> m ! a' ! b' \<le> m ! a ! b"
  proof (intro allI impI)
    fix a' b' assume h: "a' < r \<and> b' < c"
    then have "a' * c + b' < r * c" by (simp add: flat_index_less)
    with kmax have "concat m ! (a' * c + b') \<le> concat m ! k" by simp
    then show "m ! a' ! b' \<le> m ! a ! b"
      using concat_nth_rect[OF assms(1), of a' b'] h ck by simp
  qed
  have fst: "\<forall>a' b'. a' < r \<and> b' < c \<and> m ! a' ! b' = m ! a ! b \<longrightarrow>
                  a < a' \<or> (a = a' \<and> b \<le> b')"
  proof (intro allI impI)
    fix a' b' assume h: "a' < r \<and> b' < c \<and> m ! a' ! b' = m ! a ! b"
    then have "concat m ! (a' * c + b') = concat m ! k"
      using concat_nth_rect[OF assms(1), of a' b'] ck by simp
    with kfirst have "\<not> a' * c + b' < k" by force
    then have le: "a * c + b \<le> a' * c + b'" using kab by simp
    have "(a' * c + b') div c = a'" using h by simp
    moreover have "(a * c + b) div c = a" using bc by simp
    ultimately have "a \<le> a'" using div_le_mono[OF le, of c] by simp
    moreover have "a = a' \<Longrightarrow> b \<le> b'" using le by simp
    ultimately show "a < a' \<or> (a = a' \<and> b \<le> b')" by linarith
  qed
  show ?thesis using k(1) kab ar bc un mx fst by blast
qed


lemma grid_eqI:
  assumes "rect (nat n) (nat n) a" "rect (nat n) (nat n) b"
    and "\<forall>i j. 0 \<le> i \<and> i < n \<and> 0 \<le> j \<and> j < n \<longrightarrow> cell a i j = cell b i j"
  shows "a = b"
proof -
  have "map (\<lambda>i. map (\<lambda>j. cell a i j) [0..n - 1]) [0..n - 1]
      = map (\<lambda>i. map (\<lambda>j. cell b i j) [0..n - 1]) [0..n - 1]"
    using assms(3) by (intro map_cong refl) auto
  then show ?thesis
    using rect_as_map[OF assms(1)] rect_as_map[OF assms(2)] by simp
qed

lemma map_div_one: "map (map (\<lambda>v. v / (1::real))) m = m"
  by (induction m) (simp_all add: map_idI)

lemma update_keeps_fire_location:
  "update_with_observation self p w obs = Inr self' \<Longrightarrow>
     fire_location self' = fire_location self \<and> grid_size self' = grid_size self"
  by (auto simp: update_with_observation_def split: sum.splits if_splits)

lemma update_all_keeps_fire_location:
  "update_all self obs = Inr self' \<Longrightarrow> fire_location self' = fire_location self"
proof (induction obs arbitrary: self)
  case Nil
  then show ?case by simp
next
  case (Cons o1 obs)
  obtain p w b where o1: "o1 = (p, w, b)" by (cases o1)
  from Cons.prems o1 obtain s1 where s1: "update_with_observation self p w b = Inr s1"
    and rest: "update_all s1 obs = Inr self'"
    by (auto split: sum.splits)
  from Cons.IH[OF rest] update_keeps_fire_location[OF s1] show ?case by simp
qed

lemma BeliefState_fire_location: "BeliefState n = Inr s \<Longrightarrow> fire_location s = None \<and> \<not> fire_found s"
  by (auto simp: BeliefState_def split: sum.splits)

lemma merge_fire_location:
  "merge_with_other_belief self other weight = Inr self' \<Longrightarrow>
     fire_location self' = (if fire_found other then fire_location other else fire_location self)"
  by (auto simp: merge_with_other_belief_def split: sum.splits if_splits)

section \<open>BeliefState: what the operations compute, and the invariant they keep\<close>

text \<open>A positive observation, for any position and window whose footprint is not empty.\<close>

lemma update_observed_result:
  assumes "0 \<le> grid_size self"
    and "0 < footprint_size (grid_size self) pos w"
  shows "\<exists>self'. update_with_observation self pos w True = Inr self'
           \<and> rect (nat (grid_size self)) (nat (grid_size self)) (belief self')
           \<and> (\<forall>i j. 0 \<le> i \<and> i < grid_size self \<and> 0 \<le> j \<and> j < grid_size self \<longrightarrow>
                 cell (belief self') i j =
                   (if in_footprint (grid_size self) pos w (i, j)
                    then 1 / real (footprint_size (grid_size self) pos w) else 0))
           \<and> np_sum (belief self') = 1
           \<and> fire_found self'
           \<and> fire_location self' = fire_location self
           \<and> grid_size self' = grid_size self"
proof -
  let ?n = "grid_size self"
  let ?k = "real (footprint_size ?n pos w)"
  have n0: "0 \<le> ?n" using assms(1) by simp
  have z: "np_zeros ?n = Inr (replicate (nat ?n) (replicate (nat ?n) 0))"
    using n0 by (simp add: np_zeros_def)
  from assign_window[OF rect_zeros[OF n0] n0, of 0 "pos" w 1]
  obtain b where b: "assign_cells (replicate (nat ?n) (replicate (nat ?n) 0)) (window_cells ?n pos w) 1 = Inr b"
    and rb: "rect (nat ?n) (nat ?n) b"
    and cb: "\<forall>i j. 0 \<le> i \<and> i < ?n \<and> 0 \<le> j \<and> j < ?n \<longrightarrow>
              cell b i j = (if in_footprint ?n pos w (i, j) then 1 else 0)"
    by (auto simp: cell_replicate)
  have sb: "np_sum b = ?k"
    using np_sum_indicator[OF rb cb] by (simp add: footprint_size_def)
  have kpos: "0 < ?k" using assms(2) by simp
  let ?b' = "map (map (\<lambda>v. v / ?k)) b"
  have d: "div_scalar b (np_sum b) = Inr ?b'"
    using kpos sb by (simp add: div_scalar_nonzero)
  have u: "update_with_observation self pos w True = Inr (self\<lparr>belief := ?b', fire_found := True\<rparr>)"
    using z b d by (simp add: update_with_observation_def)
  have c': "\<forall>i j. 0 \<le> i \<and> i < ?n \<and> 0 \<le> j \<and> j < ?n \<longrightarrow>
              cell ?b' i j = (if in_footprint ?n pos w (i, j) then 1 / ?k else 0)"
    using cb cell_map[OF rb, of _ _ "\<lambda>v. v / ?k"] n0 by simp
  have s': "np_sum ?b' = 1" using kpos sb by (simp add: np_sum_div)
  show ?thesis
    using u c' s' rect_map[OF rb] by simp
qed

text \<open>A negative observation on a well-formed belief.\<close>

lemma update_not_observed_result:
  assumes "0 \<le> grid_size self"
    and "rect (nat (grid_size self)) (nat (grid_size self)) (belief self)"
    and "nonneg (belief self)"
  shows "\<exists>self'. update_with_observation self pos w False = Inr self'
           \<and> rect (nat (grid_size self)) (nat (grid_size self)) (belief self')
           \<and> fire_found self' = fire_found self
           \<and> fire_location self' = fire_location self
           \<and> grid_size self' = grid_size self
           \<and> (if 0 < remaining_mass (grid_size self) pos w (belief self) then
                (\<forall>i j. 0 \<le> i \<and> i < grid_size self \<and> 0 \<le> j \<and> j < grid_size self \<longrightarrow>
                   cell (belief self') i j =
                     cleared (grid_size self) pos w (belief self) (i, j)
                       / remaining_mass (grid_size self) pos w (belief self))
                \<and> np_sum (belief self') = 1
              else
                remaining_mass (grid_size self) pos w (belief self) = 0
                \<and> (\<forall>i j. 0 \<le> i \<and> i < grid_size self \<and> 0 \<le> j \<and> j < grid_size self \<longrightarrow>
                      cell (belief self') i j = 0)
                \<and> np_sum (belief self') = 0)"
proof -
  let ?n = "grid_size self"
  let ?m = "belief self"
  let ?mass = "remaining_mass ?n pos w ?m"
  from assign_window[OF assms(2) assms(1), of pos w 0]
  obtain b where b: "assign_cells ?m (window_cells ?n pos w) 0 = Inr b"
    and rb: "rect (nat ?n) (nat ?n) b"
    and cb: "\<forall>i j. 0 \<le> i \<and> i < ?n \<and> 0 \<le> j \<and> j < ?n \<longrightarrow>
              cell b i j = cleared ?n pos w ?m (i, j)"
    by (auto simp: cleared_def)
  have sb: "np_sum b = ?mass"
    using np_sum_pointwise[OF rb cb] by (simp add: remaining_mass_def)
  show ?thesis
  proof (cases "0 < ?mass")
    case True
    let ?b' = "map (map (\<lambda>v. v / ?mass)) b"
    have d: "div_scalar b (np_sum b) = Inr ?b'"
      using True sb by (simp add: div_scalar_nonzero)
    have u: "update_with_observation self pos w False = Inr (self\<lparr>belief := ?b'\<rparr>)"
      using b d sb True by (simp add: update_with_observation_def)
    have c': "\<forall>i j. 0 \<le> i \<and> i < ?n \<and> 0 \<le> j \<and> j < ?n \<longrightarrow>
                cell ?b' i j = cleared ?n pos w ?m (i, j) / ?mass"
      using cb cell_map[OF rb, of _ _ "\<lambda>v. v / ?mass"] assms(1) by simp
    have s': "np_sum ?b' = 1" using True sb by (simp add: np_sum_div)
    show ?thesis using u c' s' True rect_map[OF rb] by simp
  next
    case False
    have u: "update_with_observation self pos w False = Inr (self\<lparr>belief := b\<rparr>)"
      using b sb False by (simp add: update_with_observation_def)
    have nn: "\<forall>p \<in> set (grid_cells ?n). 0 \<le> cleared ?n pos w ?m p"
    proof
      fix p assume "p \<in> set (grid_cells ?n)"
      then have "(fst p, snd p) \<in> set (grid_cells ?n)" by simp
      then have "0 \<le> fst p \<and> fst p < ?n \<and> 0 \<le> snd p \<and> snd p < ?n"
        by (simp only: grid_cells_iff)
      then show "0 \<le> cleared ?n pos w ?m p"
        using nonneg_cell[OF assms(3) assms(2), of "fst p" "snd p"] assms(1)
        by (simp add: cleared_def)
    qed
    have "0 \<le> ?mass" unfolding remaining_mass_def
      using nn by (intro sum_list_nonneg) auto
    with False have m0: "?mass = 0" by simp
    have "\<forall>v \<in> set (map (cleared ?n pos w ?m) (grid_cells ?n)). v = 0"
      using m0 nn unfolding remaining_mass_def
      by (subst (asm) sum_list_nonneg_eq_0_iff) auto
    then have z: "\<forall>i j. 0 \<le> i \<and> i < ?n \<and> 0 \<le> j \<and> j < ?n \<longrightarrow> cleared ?n pos w ?m (i, j) = 0"
      by (auto simp: grid_cells_iff[symmetric])
    show ?thesis using u cb z sb m0 False rb by simp
  qed
qed

text \<open>The averaging branch of the merge, on two grids of one shape.\<close>

lemma merge_average_result:
  assumes "\<not> fire_found other" "0 \<le> n"
    and "rect (nat n) (nat n) (belief self)" "rect (nat n) (nat n) (belief other)"
  shows "\<exists>self'. merge_with_other_belief self other weight = Inr self'
         \<and> rect (nat n) (nat n) (belief self')
         \<and> fire_found self' = fire_found self
         \<and> fire_location self' = fire_location self
         \<and> grid_size self' = grid_size self
         \<and> (if 0 < average_mass n weight (belief self) (belief other) then
              (\<forall>i j. 0 \<le> i \<and> i < n \<and> 0 \<le> j \<and> j < n \<longrightarrow>
                 cell (belief self') i j =
                   weighted_average weight (belief self) (belief other) (i, j)
                     / average_mass n weight (belief self) (belief other))
              \<and> np_sum (belief self') = 1
            else
              (\<forall>i j. 0 \<le> i \<and> i < n \<and> 0 \<le> j \<and> j < n \<longrightarrow>
                 cell (belief self') i j =
                   weighted_average weight (belief self) (belief other) (i, j)))"
proof -
  let ?a = "belief self" and ?b = "belief other"
  let ?mass = "average_mass n weight ?a ?b"
  have nf: "\<not> fire_found other" and n0: "0 \<le> n"
    and ra: "rect (nat n) (nat n) ?a" and rb: "rect (nat n) (nat n) ?b"
    using assms by simp_all
  from np_add_scaled[OF ra rb, of weight]
  obtain m where m: "np_add (scale weight ?a) (scale (1 - weight) ?b) = Inr m"
    and rm: "rect (nat n) (nat n) m"
    and cm: "\<forall>i j. 0 \<le> i \<and> i < n \<and> 0 \<le> j \<and> j < n \<longrightarrow>
               cell m i j = weighted_average weight ?a ?b (i, j)"
    using n0 by auto
  have sm: "np_sum m = ?mass"
    using np_sum_pointwise[OF rm cm] by (simp add: average_mass_def)
  show ?thesis
  proof (cases "0 < ?mass")
    case True
    let ?m' = "map (map (\<lambda>v. v / ?mass)) m"
    have d: "div_scalar m (np_sum m) = Inr ?m'"
      using True sm by (simp add: div_scalar_nonzero)
    have u: "merge_with_other_belief self other weight = Inr (self\<lparr>belief := ?m'\<rparr>)"
      using nf m d sm True by (simp add: merge_with_other_belief_def)
    have c': "\<forall>i j. 0 \<le> i \<and> i < n \<and> 0 \<le> j \<and> j < n \<longrightarrow>
                cell ?m' i j = weighted_average weight ?a ?b (i, j) / ?mass"
      using cm cell_map[OF rm, of _ _ "\<lambda>v. v / ?mass"] n0 by simp
    have s': "np_sum ?m' = 1" using True sm by (simp add: np_sum_div)
    show ?thesis using u c' s' True rect_map[OF rm] by simp
  next
    case False
    have u: "merge_with_other_belief self other weight = Inr (self\<lparr>belief := m\<rparr>)"
      using nf m sm False by (simp add: merge_with_other_belief_def)
    show ?thesis using u cm False rm by simp
  qed
qed

text \<open>
  The invariant holds after construction, and every operation that completes keeps it
  (the merge for a weight in \<open>[0, 1]\<close> and a peer on a grid of the same size): it
  describes the beliefs the code can build.
\<close>

lemma nonneg_cellsI:
  assumes "rect (nat n) (nat n) m"
    and "\<forall>i j. 0 \<le> i \<and> i < n \<and> 0 \<le> j \<and> j < n \<longrightarrow> 0 \<le> cell m i j"
  shows "nonneg m"
proof -
  have "nonneg (map (\<lambda>i. map (\<lambda>j. cell m i j) [0..n - 1]) [0..n - 1])"
    using assms(2) by (auto simp: nonneg_def list_all_iff)
  then show ?thesis using rect_as_map[OF assms(1)] by simp
qed

lemma np_sum_replicate: "np_sum (replicate r (replicate c v)) = real r * (real c * v)"
  by (simp add: np_sum_def sum_list_replicate)

lemma BeliefState_invariant:
  assumes "BeliefState n = Inr s"
  shows "belief_invariant s \<and> grid_size s = n"
proof -
  have n0: "0 \<le> n" using assms by (auto simp: BeliefState_def np_ones_def split: if_splits)
  show ?thesis
  proof (cases "n = 0")
    case True
    then have "s = \<lparr>grid_size = 0, belief = [], fire_found = False, fire_location = None\<rparr>"
      using assms by (simp add: BeliefState_def np_ones_def div_scalar_def)
    then show ?thesis using True
      by (simp add: belief_invariant_def rect_def nonneg_def np_sum_def)
  next
    case False
    then have pos: "0 < n" using n0 by simp
    let ?b = "map (map (\<lambda>v. v / real_of_int (n * n))) (replicate (nat n) (replicate (nat n) 1))"
    have s: "s = \<lparr>grid_size = n, belief = ?b, fire_found = False, fire_location = None\<rparr>"
      using assms pos by (auto simp: BeliefState_def np_ones_def div_scalar_def)
    have r: "rect (nat n) (nat n) ?b" by (intro rect_map rect_zeros n0)
    have "np_sum ?b = np_sum (replicate (nat n) (replicate (nat n) 1)) / real_of_int (n * n)"
      by (rule np_sum_div)
    also have "\<dots> = 1" using pos by (simp add: np_sum_replicate)
    finally have t: "np_sum ?b = 1" .
    have nn: "nonneg ?b" using pos by (simp add: nonneg_def list_all_iff)
    show ?thesis using s r t nn n0 by (simp add: belief_invariant_def)
  qed
qed

lemma sum_list_nonneg_cells:
  assumes "nonneg m"
  shows "0 \<le> np_sum m"
  unfolding np_sum_def using assms
  by (intro sum_list_nonneg) (auto simp: nonneg_def list_all_iff intro!: sum_list_nonneg)

lemma update_invariant:
  assumes "belief_invariant s" "update_with_observation s pos w obs = Inr s'"
  shows "belief_invariant s'"
proof -
  let ?n = "grid_size s"
  have n0: "0 \<le> ?n" and r: "rect (nat ?n) (nat ?n) (belief s)" and nn: "nonneg (belief s)"
    using assms(1) by (simp_all add: belief_invariant_def)
  show ?thesis
  proof (cases obs)
    case True
    show ?thesis
    proof (cases "0 < footprint_size ?n pos w")
      case fp: True
      from update_observed_result[OF n0 fp] assms(2) True
      have a: "rect (nat ?n) (nat ?n) (belief s')" "np_sum (belief s') = 1" "grid_size s' = ?n"
        and c: "\<forall>i j. 0 \<le> i \<and> i < ?n \<and> 0 \<le> j \<and> j < ?n \<longrightarrow>
                 cell (belief s') i j =
                   (if in_footprint ?n pos w (i, j)
                    then 1 / real (footprint_size ?n pos w) else 0)"
        by auto
      have "nonneg (belief s')" using c by (intro nonneg_cellsI[OF a(1)]) simp
      then show ?thesis using a n0 by (simp add: belief_invariant_def)
    next
      case nofp: False
      from assign_window[OF rect_zeros[OF n0] n0, of 0 pos w 1]
      obtain b where b: "assign_cells (replicate (nat ?n) (replicate (nat ?n) 0)) (window_cells ?n pos w) 1 = Inr b"
        and rb: "rect (nat ?n) (nat ?n) b"
        and cb: "\<forall>i j. 0 \<le> i \<and> i < ?n \<and> 0 \<le> j \<and> j < ?n \<longrightarrow>
              cell b i j = (if in_footprint ?n pos w (i, j) then 1 else 0)"
        by (auto simp: cell_replicate)
      have sb: "np_sum b = 0"
        using np_sum_indicator[OF rb cb] nofp by (simp add: footprint_size_def)
      have u: "update_with_observation s pos w True
          = (case div_scalar b 0 of Inl e \<Rightarrow> Inl e
             | Inr b' \<Rightarrow> Inr (s\<lparr>belief := b', fire_found := True\<rparr>))"
        using n0 b sb by (simp add: update_with_observation_def np_zeros_def)
      with assms(2) True have e: "concat b = []"
        by (auto simp: div_scalar_def split: if_splits)
      have "length (concat b) = nat ?n * nat ?n" using rb by (rule length_concat_rect)
      moreover have "length (concat b) = 0" using e by (simp only: list.size(3))
      ultimately have "nat ?n * nat ?n = 0" by (simp only:)
      then have "nat ?n = 0" by simp
      with rb have "b = []" by (simp add: rect_def)
      with u assms(2) True have "s' = s\<lparr>belief := [], fire_found := True\<rparr>"
        by (simp add: div_scalar_def)
      then show ?thesis using n0 \<open>nat ?n = 0\<close>
        by (simp add: belief_invariant_def rect_def nonneg_def np_sum_def)
    qed
  next
    case False
    let ?mass = "remaining_mass ?n pos w (belief s)"
    from update_not_observed_result[OF n0 r nn, of pos w] assms(2) False
    have a: "rect (nat ?n) (nat ?n) (belief s')" "grid_size s' = ?n"
      and c: "if 0 < ?mass then
                (\<forall>i j. 0 \<le> i \<and> i < ?n \<and> 0 \<le> j \<and> j < ?n \<longrightarrow>
                   cell (belief s') i j = cleared ?n pos w (belief s) (i, j) / ?mass)
                \<and> np_sum (belief s') = 1
              else
                ?mass = 0
                \<and> (\<forall>i j. 0 \<le> i \<and> i < ?n \<and> 0 \<le> j \<and> j < ?n \<longrightarrow> cell (belief s') i j = 0)
                \<and> np_sum (belief s') = 0"
      by auto
    have cl: "\<And>i j. 0 \<le> i \<and> i < ?n \<and> 0 \<le> j \<and> j < ?n \<Longrightarrow> 0 \<le> cleared ?n pos w (belief s) (i, j)"
      using nonneg_cell[OF nn r] n0 by (simp add: cleared_def)
    have "nonneg (belief s')"
      using c cl by (intro nonneg_cellsI[OF a(1)]) (auto split: if_splits)
    moreover have "np_sum (belief s') = 1 \<or> np_sum (belief s') = 0"
      using c by (auto split: if_splits)
    ultimately show ?thesis using a n0 by (simp add: belief_invariant_def)
  qed
qed

lemma merge_invariant:
  assumes "belief_invariant s" "belief_invariant other" "grid_size other = grid_size s"
    and "0 \<le> weight" "weight \<le> 1"
    and "merge_with_other_belief s other weight = Inr s'"
  shows "belief_invariant s'"
proof (cases "fire_found other")
  case True
  then have "s' = s\<lparr>belief := belief other, fire_found := True,
                    fire_location := fire_location other\<rparr>"
    using assms(6) by (simp add: merge_with_other_belief_def)
  then show ?thesis using assms(1,2,3) by (simp add: belief_invariant_def)
next
  case False
  let ?n = "grid_size s"
  let ?mass = "average_mass ?n weight (belief s) (belief other)"
  have n0: "0 \<le> ?n" and r: "rect (nat ?n) (nat ?n) (belief s)" and nn: "nonneg (belief s)"
    using assms(1) by (simp_all add: belief_invariant_def)
  have ro: "rect (nat ?n) (nat ?n) (belief other)" and nno: "nonneg (belief other)"
    using assms(2,3) by (simp_all add: belief_invariant_def)
  from merge_average_result[OF False n0 r ro, of weight] assms(6)
  have a: "rect (nat ?n) (nat ?n) (belief s')" "grid_size s' = ?n"
    and c: "if 0 < ?mass then
              (\<forall>i j. 0 \<le> i \<and> i < ?n \<and> 0 \<le> j \<and> j < ?n \<longrightarrow>
                 cell (belief s') i j = weighted_average weight (belief s) (belief other) (i, j) / ?mass)
              \<and> np_sum (belief s') = 1
            else
              (\<forall>i j. 0 \<le> i \<and> i < ?n \<and> 0 \<le> j \<and> j < ?n \<longrightarrow>
                 cell (belief s') i j = weighted_average weight (belief s) (belief other) (i, j))"
    by auto
  have wa: "\<And>i j. 0 \<le> i \<and> i < ?n \<and> 0 \<le> j \<and> j < ?n \<Longrightarrow>
              0 \<le> weighted_average weight (belief s) (belief other) (i, j)"
    using nonneg_cell[OF nn r] nonneg_cell[OF nno ro] n0 assms(4,5)
    by (simp add: weighted_average_def)
  have nn': "nonneg (belief s')"
    using c wa by (intro nonneg_cellsI[OF a(1)]) (auto split: if_splits)
  have "np_sum (belief s') = 1 \<or> np_sum (belief s') = 0"
  proof (cases "0 < ?mass")
    case True
    then show ?thesis using c by simp
  next
    case nonpos: False
    have "np_sum (belief s') = ?mass"
      using np_sum_pointwise[OF a(1), of "weighted_average weight (belief s) (belief other)"] c nonpos
      by (simp add: average_mass_def)
    moreover have "0 \<le> np_sum (belief s')" using nn' by (rule sum_list_nonneg_cells)
    ultimately show ?thesis using nonpos by simp
  qed
  then show ?thesis using a n0 nn' by (simp add: belief_invariant_def)
qed

section \<open>Drone and SearchEnv: what the loops compute\<close>

text \<open>Signed 64-bit arithmetic that does not wrap.\<close>

lemma sint_succ:
  fixes v :: int64
  assumes "sint v < 2 ^ 63 - 1"
  shows "sint (v + 1) = sint v + 1"
proof -
  have "- (2 ^ 63) \<le> sint v" using sint_ge[of v] by simp
  then have "signed_take_bit 63 (sint v + 1) = sint v + 1"
    using assms by (intro signed_take_bit_int_eq_self) simp_all
  then show ?thesis by (simp add: sint_word_ariths)
qed

lemma sint_pred:
  fixes v :: int64
  assumes "- (2 ^ 63) < sint v"
  shows "sint (v - 1) = sint v - 1"
proof -
  have "sint v < 2 ^ 63" using sint_lt[of v] by simp
  then have "signed_take_bit 63 (sint v - 1) = sint v - 1"
    using assms by (intro signed_take_bit_int_eq_self) simp_all
  then show ?thesis by (simp add: sint_word_ariths)
qed

lemma sint_of_fitting:
  assumes "fits_int64 k"
  shows "sint (word_of_int k :: int64) = k"
  using assms by (simp add: fits_int64_def sint_sbintrunc' signed_take_bit_int_eq_self)

lemma py_min_fitting:
  assumes "fits_int64 bound"
  shows "\<exists>r. py_min bound v = Inr r \<and> sint r = min bound (sint v)"
  using assms by (auto simp: py_min_def sint_of_fitting)

lemma sint_py_max0: "sint (py_max0 v) = max 0 (sint v)"
  by (simp add: py_max0_def)

text \<open>What a call of \<open>action\<close> that completes has done, and when it completes.\<close>

lemma action_returned:
  assumes "(action self a fp :: drone_error + drone \<times> 'p option) = Inr (d', r)"
  shows "r = None \<and> time d' = time self + dt self
         \<and> drone.grid_size d' = drone.grid_size self
         \<and> window_size d' = window_size self
         \<and> observe (self\<lparr>position := position d'\<rparr>) fp = Inr (drone.fire_found d')
         \<and> (a \<noteq> 1 \<and> a \<noteq> 2 \<and> a \<noteq> 3 \<and> a \<noteq> 4 \<longrightarrow> position d' = position self)
         \<and> (a = 1 \<longrightarrow> fst (position d') = fst (position self)
               \<and> py_min (drone.grid_size self - 1) (snd (position self) + 1)
                   = Inr (snd (position d')))
         \<and> (a = 2 \<longrightarrow> position d' = (fst (position self), py_max0 (snd (position self) - 1)))
         \<and> (a = 3 \<longrightarrow> position d' = (py_max0 (fst (position self) - 1), snd (position self)))
         \<and> (a = 4 \<longrightarrow> snd (position d') = snd (position self)
               \<and> py_min (drone.grid_size self - 1) (fst (position self) + 1)
                   = Inr (fst (position d')))"
  using assms
  by (auto simp: action_def Let_def split: if_splits sum.splits)

lemma action_completes:
  assumes "fits_int64 (window_size self div 2)"
    and "a = 1 \<or> a = 4 \<longrightarrow> fits_int64 (drone.grid_size self - 1)"
  shows "\<exists>d'. (action self a fp :: drone_error + drone \<times> 'p option) = Inr (d', None)"
proof -
  have o: "\<And>p. \<exists>seen. observe (self\<lparr>position := p\<rparr>) fp = Inr seen"
    using assms(1) by (auto simp: observe_def Let_def)
  have m: "a = 1 \<or> a = 4 \<Longrightarrow> \<exists>r. py_min (drone.grid_size self - 1) v = Inr r" for v
    using assms(2) by (simp add: py_min_def)
  show ?thesis
  proof (cases "a = 1")
    case True
    from m[of "snd (position self) + 1"] True obtain r where
      r: "py_min (drone.grid_size self - 1) (snd (position self) + 1) = Inr r" by blast
    from o[of "(fst (position self), r)"] obtain seen where
      "observe (self\<lparr>position := (fst (position self), r)\<rparr>) fp = Inr seen" by blast
    then show ?thesis using True r by (simp add: action_def Let_def)
  next
    case n1: False
    show ?thesis
    proof (cases "a = 4")
      case True
      from m[of "fst (position self) + 1"] True obtain r where
        r: "py_min (drone.grid_size self - 1) (fst (position self) + 1) = Inr r" by blast
      from o[of "(r, snd (position self))"] obtain seen where
        "observe (self\<lparr>position := (r, snd (position self))\<rparr>) fp = Inr seen" by blast
      then show ?thesis using True r by (simp add: action_def Let_def)
    next
      case n4: False
      show ?thesis
      proof (cases "a = 2")
        case True
        from o[of "(fst (position self), py_max0 (snd (position self) - 1))"] obtain seen where
          "observe (self\<lparr>position := (fst (position self), py_max0 (snd (position self) - 1))\<rparr>) fp
             = Inr seen" by blast
        then show ?thesis using True by (simp add: action_def Let_def)
      next
        case n2: False
        show ?thesis
        proof (cases "a = 3")
          case True
          from o[of "(py_max0 (fst (position self) - 1), snd (position self))"] obtain seen where
            "observe (self\<lparr>position := (py_max0 (fst (position self) - 1), snd (position self))\<rparr>) fp
               = Inr seen" by blast
          then show ?thesis using True by (simp add: action_def Let_def)
        next
          case n3: False
          from o[of "(fst (position self), snd (position self))"] obtain seen where
            "observe (self\<lparr>position := (fst (position self), snd (position self))\<rparr>) fp
               = Inr seen" by blast
          then show ?thesis using n1 n2 n3 n4 by (simp add: action_def Let_def)
        qed
      qed
    qed
  qed
qed

lemma execute_actions_result:
  "\<exists>acted' packets'.
     execute_actions ops zs (env, acted, packets, cost)
       = (env\<lparr>total_communications :=
                 total_communications env + int (length (filter (returns_packet ops env) zs))\<rparr>,
          acted', packets',
          cost + communication_cost env * real (length (filter (returns_packet ops env) zs))
               + movement_cost env * real (length (filter (moves_silently ops env) zs)))
     \<and> length packets' = length packets + length (filter (returns_packet ops env) zs)"
proof (induction zs arbitrary: env acted packets cost)
  case Nil
  then show ?case by simp
next
  case (Cons z zs)
  obtain d a where z: "z = (d, a)" by (cases z)
  obtain d' pk where r: "act ops d a (fire_pos env) = (d', pk)" by (cases "act ops d a (fire_pos env)")
  show ?case
  proof (cases pk)
    case None
    have same: "returns_packet ops env z = False" using z r None by (simp add: returns_packet_def)
    show ?thesis
    proof (cases "a = 0")
      case True
      from Cons.IH[of env "acted @ [d']" packets cost] z r None True same
      show ?thesis by (simp add: moves_silently_def)
    next
      case False
      from Cons.IH[of env "acted @ [d']" packets "cost + movement_cost env"] z r None False same
      show ?thesis by (simp add: moves_silently_def algebra_simps)
    qed
  next
    case (Some packet)
    let ?env1 = "env\<lparr>total_communications := total_communications env + 1\<rparr>"
    have p1: "returns_packet ops ?env1 = returns_packet ops env"
      and p2: "moves_silently ops ?env1 = moves_silently ops env"
      by (simp_all add: returns_packet_def moves_silently_def fun_eq_iff)
    from Cons.IH[of ?env1 "acted @ [d']" "packets @ [packet]" "cost + communication_cost env"]
      z r Some p1 p2
    show ?thesis by (simp add: returns_packet_def moves_silently_def algebra_simps)
  qed
qed

lemma check_fire_result:
  "check_fire ops ds env =
     (if fire_extinguished env then env
      else case find (on_fire ops env) ds of
             None \<Rightarrow> env
           | Some d \<Rightarrow> env\<lparr>fire_extinguished := True,
                            time_to_extinguish := Some (drone_time ops d)\<rparr>)"
proof (induction ds arbitrary: env)
  case Nil
  then show ?case by simp
next
  case (Cons d ds)
  show ?case
  proof (cases "fire_extinguished env")
    case True
    then show ?thesis using Cons.IH[of env] by simp
  next
    case False
    then show ?thesis
      using Cons.IH[of env]
        Cons.IH[of "env\<lparr>fire_extinguished := True, time_to_extinguish := Some (drone_time ops d)\<rparr>"]
      by (simp add: on_fire_def)
  qed
qed

lemma step_result:
  assumes "step ops env rng drones actions = ((cost, ext), env', drones', rng')"
  shows "\<exists>env1. env1 = env\<lparr>total_communications :=
                 total_communications env
                   + int (length (filter (returns_packet ops env) (zip drones actions)))\<rparr>
           \<and> cost = communication_cost env
                      * real (length (filter (returns_packet ops env) (zip drones actions)))
                    + movement_cost env
                      * real (length (filter (moves_silently ops env) (zip drones actions)))
           \<and> env' = (check_fire ops drones' env1)
                      \<lparr>total_cost := total_cost (check_fire ops drones' env1) + cost\<rparr>
           \<and> ext = fire_extinguished env'"
proof -
  from execute_actions_result[of ops "zip drones actions" env "[]" "[]" 0]
  obtain acted' packets' where
    e: "execute_actions ops (zip drones actions) (env, [], [], 0)
       = (env\<lparr>total_communications :=
                 total_communications env
                   + int (length (filter (returns_packet ops env) (zip drones actions)))\<rparr>,
          acted', packets',
          0 + communication_cost env
                * real (length (filter (returns_packet ops env) (zip drones actions)))
            + movement_cost env
                * real (length (filter (moves_silently ops env) (zip drones actions))))"
    by blast
  show ?thesis
    using assms unfolding step_def e
    by (auto simp: Let_def split: prod.splits)
qed

lemma check_fire_frame:
  "total_cost (check_fire ops ds env) = total_cost env
   \<and> total_communications (check_fire ops ds env) = total_communications env
   \<and> fire_pos (check_fire ops ds env) = fire_pos env
   \<and> communication_cost (check_fire ops ds env) = communication_cost env
   \<and> movement_cost (check_fire ops ds env) = movement_cost env"
  by (simp add: check_fire_result split: option.splits)


lemma step_fire_flags:
  assumes "step ops env rng drones actions = ((cost, ext), env', drones', rng')"
  shows "ext = fire_extinguished env' \<and> fire_pos env' = fire_pos env
         \<and> (if fire_extinguished env then
               fire_extinguished env' \<and> time_to_extinguish env' = time_to_extinguish env
             else
               (case find (on_fire ops env) drones' of
                  None \<Rightarrow> \<not> fire_extinguished env'
                           \<and> time_to_extinguish env' = time_to_extinguish env
                | Some d \<Rightarrow> fire_extinguished env'
                           \<and> time_to_extinguish env' = Some (drone_time ops d)))"
proof -
  let ?env1 = "env\<lparr>total_communications :=
                 total_communications env
                   + int (length (filter (returns_packet ops env) (zip drones actions)))\<rparr>"
  have o: "on_fire ops ?env1 = on_fire ops env" by (simp add: on_fire_def fun_eq_iff)
  from step_result[OF assms]
  have e: "env' = (check_fire ops drones' ?env1)
                      \<lparr>total_cost := total_cost (check_fire ops drones' ?env1) + cost\<rparr>"
    and x: "ext = fire_extinguished env'" by auto
  show ?thesis
    unfolding x e check_fire_result o by (simp split: option.splits)
qed

lemma run_steps_frozen:
  "fire_extinguished env \<Longrightarrow>
     fire_extinguished (fst (run_steps ops env rng drones actionss))
     \<and> time_to_extinguish (fst (run_steps ops env rng drones actionss)) = time_to_extinguish env"
proof (induction actionss arbitrary: env rng drones)
  case Nil
  then show ?case by simp
next
  case (Cons actions rest)
  obtain cost ext env' drones' rng' where
    s: "step ops env rng drones actions = ((cost, ext), env', drones', rng')"
    by (metis prod.exhaust)
  from step_fire_flags[OF s] Cons.prems
  have f: "fire_extinguished env'" "time_to_extinguish env' = time_to_extinguish env" by simp_all
  from Cons.IH[OF f(1), of rng' drones'] f(2) s show ?case by simp
qed

section \<open>Claims about BeliefState\<close>

text \<open>
  C1. On a grid of size \<open>N \<ge> 1\<close>, for an in-bounds position \<open>(x, y)\<close> and a window size
  \<open>1 \<le> w \<le> N\<close>, \<open>update_with_observation\<close> with \<open>fire_observed = True\<close> succeeds
  whatever the prior belief was (the prior grid is not even read): the new belief is an
  \<open>N \<times> N\<close> grid that holds \<open>1 / k\<close> on every footprint cell, \<open>k\<close> being the number of
  footprint cells, and 0 on every other cell; it sums to 1 and \<open>fire_found\<close> is set.
  The witness is the 5 by 5 scenario at \<open>(2, 2)\<close> with window 3, started from the all-zero
  belief: \<open>1 / 9\<close> on rows and columns 1 to 3, 0 elsewhere.
\<close>

theorem update_fire_observed_uniform:
  assumes "1 \<le> grid_size self"
    and "0 \<le> x" "x < grid_size self" "0 \<le> y" "y < grid_size self"
    and "1 \<le> w" "w \<le> grid_size self"
  shows "\<exists>self'. update_with_observation self (x, y) w True = Inr self'
           \<and> rect (nat (grid_size self)) (nat (grid_size self)) (belief self')
           \<and> (\<forall>i j. 0 \<le> i \<and> i < grid_size self \<and> 0 \<le> j \<and> j < grid_size self \<longrightarrow>
                 cell (belief self') i j =
                   (if in_footprint (grid_size self) (x, y) w (i, j)
                    then 1 / real (footprint_size (grid_size self) (x, y) w) else 0))
           \<and> np_sum (belief self') = 1
           \<and> fire_found self'
           \<and> fire_location self' = fire_location self
           \<and> grid_size self' = grid_size self"
proof -
  have "0 \<le> grid_size self" using assms(1) by simp
  moreover have "0 < footprint_size (grid_size self) (x, y) w"
    using assms by (intro footprint_size_pos) simp_all
  ultimately show ?thesis by (rule update_observed_result)
qed

theorem update_fire_observed_uniform_witness:
  "update_with_observation
     \<lparr>grid_size = 5,
      belief = [[0, 0, 0, 0, 0], [0, 0, 0, 0, 0], [0, 0, 0, 0, 0], [0, 0, 0, 0, 0],
                [0, 0, 0, 0, 0]],
      fire_found = False, fire_location = None\<rparr> (2, 2) 3 True
   = Inr \<lparr>grid_size = 5,
          belief = [[0, 0, 0, 0, 0], [0, 1 / 9, 1 / 9, 1 / 9, 0], [0, 1 / 9, 1 / 9, 1 / 9, 0],
                    [0, 1 / 9, 1 / 9, 1 / 9, 0], [0, 0, 0, 0, 0]],
          fire_found = True, fire_location = None\<rparr>
   \<and> footprint_size 5 (2, 2) 3 = 9
   \<and> np_sum [[0, 0, 0, 0, 0], [0, 1 / 9, 1 / 9, 1 / 9, 0], [0, 1 / 9, 1 / 9, 1 / 9, 0],
              [0, 1 / 9, 1 / 9, 1 / 9, 0], [0, 0, 0, 0, 0]] = 1"
proof -
  let ?s = "\<lparr>grid_size = 5,
      belief = [[0, 0, 0, 0, 0], [0, 0, 0, 0, 0], [0, 0, 0, 0, 0], [0, 0, 0, 0, 0],
                [0, 0, 0, 0, 0 :: real]],
      fire_found = False, fire_location = None\<rparr>"
  let ?b = "[[0, 0, 0, 0, 0], [0, 1 / 9, 1 / 9, 1 / 9, 0], [0, 1 / 9, 1 / 9, 1 / 9, 0],
             [0, 1 / 9, 1 / 9, 1 / 9, 0], [0, 0, 0, 0, 0 :: real]]"
  have run: "update_with_observation ?s (2, 2) 3 True
      = Inr \<lparr>grid_size = 5, belief = ?b, fire_found = True, fire_location = None\<rparr>"
    by code_simp
  have k: "footprint_size 5 (2, 2) 3 = 9"
    by code_simp
  from update_fire_observed_uniform[of ?s 2 2 3]
  obtain self' where "update_with_observation ?s (2, 2) 3 True = Inr self'"
    and "np_sum (belief self') = 1"
    by auto
  with run have "np_sum ?b = 1" by simp
  with run k show ?thesis by simp
qed

text \<open>
  C3. On a well-formed belief (an \<open>N \<times> N\<close> grid without negative cells), for every
  position and window size, \<open>update_with_observation\<close> with \<open>fire_observed = False\<close>
  succeeds and leaves \<open>fire_found\<close> and \<open>fire_location\<close> as they were. It clears the
  footprint cells; when the mass that remains is positive every cell is divided by it
  and the belief sums to 1; otherwise that mass is zero and the belief is left as the
  all-zero grid, which sums to 0.
\<close>

theorem update_no_fire_clears_window:
  assumes "0 \<le> grid_size self"
    and "rect (nat (grid_size self)) (nat (grid_size self)) (belief self)"
    and "nonneg (belief self)"
  shows "\<exists>self'. update_with_observation self pos w False = Inr self'
           \<and> rect (nat (grid_size self)) (nat (grid_size self)) (belief self')
           \<and> fire_found self' = fire_found self
           \<and> fire_location self' = fire_location self
           \<and> grid_size self' = grid_size self
           \<and> (if 0 < remaining_mass (grid_size self) pos w (belief self) then
                (\<forall>i j. 0 \<le> i \<and> i < grid_size self \<and> 0 \<le> j \<and> j < grid_size self \<longrightarrow>
                   cell (belief self') i j =
                     cleared (grid_size self) pos w (belief self) (i, j)
                       / remaining_mass (grid_size self) pos w (belief self))
                \<and> np_sum (belief self') = 1
              else
                remaining_mass (grid_size self) pos w (belief self) = 0
                \<and> (\<forall>i j. 0 \<le> i \<and> i < grid_size self \<and> 0 \<le> j \<and> j < grid_size self \<longrightarrow>
                      cell (belief self') i j = 0)
                \<and> np_sum (belief self') = 0)"
  using assms by (rule update_not_observed_result)

theorem update_no_fire_clears_window_witness:
  "update_with_observation
     \<lparr>grid_size = 5,
      belief = [[1 / 25, 1 / 25, 1 / 25, 1 / 25, 1 / 25], [1 / 25, 1 / 25, 1 / 25, 1 / 25, 1 / 25],
                [1 / 25, 1 / 25, 1 / 25, 1 / 25, 1 / 25], [1 / 25, 1 / 25, 1 / 25, 1 / 25, 1 / 25],
                [1 / 25, 1 / 25, 1 / 25, 1 / 25, 1 / 25]],
      fire_found = False, fire_location = None\<rparr> (2, 2) 3 False
   = Inr \<lparr>grid_size = 5,
          belief = [[1 / 16, 1 / 16, 1 / 16, 1 / 16, 1 / 16], [1 / 16, 0, 0, 0, 1 / 16],
                    [1 / 16, 0, 0, 0, 1 / 16], [1 / 16, 0, 0, 0, 1 / 16],
                    [1 / 16, 1 / 16, 1 / 16, 1 / 16, 1 / 16]],
          fire_found = False, fire_location = None\<rparr>
   \<and> np_sum [[1 / 16, 1 / 16, 1 / 16, 1 / 16, 1 / 16], [1 / 16, 0, 0, 0, 1 / 16],
              [1 / 16, 0, 0, 0, 1 / 16], [1 / 16, 0, 0, 0, 1 / 16],
              [1 / 16, 1 / 16, 1 / 16, 1 / 16, 1 / 16]] = 1
   \<and> update_with_observation
       \<lparr>grid_size = 1, belief = [[1]], fire_found = False, fire_location = None\<rparr>
       (0, 0) 1 False
     = Inr \<lparr>grid_size = 1, belief = [[0]], fire_found = False, fire_location = None\<rparr>"
proof -
  let ?s = "\<lparr>grid_size = 5,
      belief = [[1 / 25, 1 / 25, 1 / 25, 1 / 25, 1 / 25], [1 / 25, 1 / 25, 1 / 25, 1 / 25, 1 / 25],
                [1 / 25, 1 / 25, 1 / 25, 1 / 25, 1 / 25], [1 / 25, 1 / 25, 1 / 25, 1 / 25, 1 / 25],
                [1 / 25, 1 / 25, 1 / 25, 1 / 25, 1 / 25 :: real]],
      fire_found = False, fire_location = None\<rparr>"
  let ?b = "[[1 / 16, 1 / 16, 1 / 16, 1 / 16, 1 / 16], [1 / 16, 0, 0, 0, 1 / 16],
             [1 / 16, 0, 0, 0, 1 / 16], [1 / 16, 0, 0, 0, 1 / 16],
             [1 / 16, 1 / 16, 1 / 16, 1 / 16, 1 / 16 :: real]]"
  have run: "update_with_observation ?s (2, 2) 3 False
      = Inr \<lparr>grid_size = 5, belief = ?b, fire_found = False, fire_location = None\<rparr>"
    by code_simp
  have mass: "0 < remaining_mass 5 (2, 2) 3 (belief ?s)"
    by code_simp
  have wf: "rect (nat 5) (nat 5) (belief ?s)" "nonneg (belief ?s)"
    by (simp_all add: rect_def nonneg_def)
  from update_no_fire_clears_window[of ?s "(2, 2)" 3] wf mass
  obtain self' where "update_with_observation ?s (2, 2) 3 False = Inr self'"
    and "np_sum (belief self') = 1"
    by auto
  with run have total: "np_sum ?b = 1" by simp
  have degenerate: "update_with_observation
       \<lparr>grid_size = 1, belief = [[1]], fire_found = False, fire_location = None\<rparr>
       (0, 0) 1 False
     = Inr \<lparr>grid_size = 1, belief = [[0]], fire_found = False, fire_location = None\<rparr>"
    by code_simp
  from run total degenerate show ?thesis by simp
qed

text \<open>
  C2. When the other belief has \<open>fire_found\<close> set, \<open>merge_with_other_belief\<close> makes the
  belief the other's grid, sets \<open>fire_found\<close> and takes the other's \<open>fire_location\<close>,
  whatever this belief held and for every weight. Otherwise, for two grids of one shape
  \<open>n \<times> n\<close>, the new belief is the weighted average
  \<open>weight * self + (1 - weight) * other\<close> cell by cell, divided by its sum (and then
  summing to 1) when that sum is positive and left as computed when it is not; the
  flags stay as they were. No bound on the weight is needed.
\<close>

theorem merge_adopts_or_averages:
  "(fire_found other \<longrightarrow>
      merge_with_other_belief self other weight
        = Inr (self\<lparr>belief := belief other, fire_found := True,
                    fire_location := fire_location other\<rparr>))
   \<and> (\<not> fire_found other \<and> 0 \<le> n \<and> rect (nat n) (nat n) (belief self)
        \<and> rect (nat n) (nat n) (belief other) \<longrightarrow>
      (\<exists>self'. merge_with_other_belief self other weight = Inr self'
         \<and> rect (nat n) (nat n) (belief self')
         \<and> fire_found self' = fire_found self
         \<and> fire_location self' = fire_location self
         \<and> grid_size self' = grid_size self
         \<and> (if 0 < average_mass n weight (belief self) (belief other) then
              (\<forall>i j. 0 \<le> i \<and> i < n \<and> 0 \<le> j \<and> j < n \<longrightarrow>
                 cell (belief self') i j =
                   weighted_average weight (belief self) (belief other) (i, j)
                     / average_mass n weight (belief self) (belief other))
              \<and> np_sum (belief self') = 1
            else
              (\<forall>i j. 0 \<le> i \<and> i < n \<and> 0 \<le> j \<and> j < n \<longrightarrow>
                 cell (belief self') i j =
                   weighted_average weight (belief self) (belief other) (i, j)))))"
proof (rule conjI)
  show "fire_found other \<longrightarrow>
      merge_with_other_belief self other weight
        = Inr (self\<lparr>belief := belief other, fire_found := True,
                    fire_location := fire_location other\<rparr>)"
    by (simp add: merge_with_other_belief_def)
next
  show "\<not> fire_found other \<and> 0 \<le> n \<and> rect (nat n) (nat n) (belief self)
        \<and> rect (nat n) (nat n) (belief other) \<longrightarrow>
      (\<exists>self'. merge_with_other_belief self other weight = Inr self'
         \<and> rect (nat n) (nat n) (belief self')
         \<and> fire_found self' = fire_found self
         \<and> fire_location self' = fire_location self
         \<and> grid_size self' = grid_size self
         \<and> (if 0 < average_mass n weight (belief self) (belief other) then
              (\<forall>i j. 0 \<le> i \<and> i < n \<and> 0 \<le> j \<and> j < n \<longrightarrow>
                 cell (belief self') i j =
                   weighted_average weight (belief self) (belief other) (i, j)
                     / average_mass n weight (belief self) (belief other))
              \<and> np_sum (belief self') = 1
            else
              (\<forall>i j. 0 \<le> i \<and> i < n \<and> 0 \<le> j \<and> j < n \<longrightarrow>
                 cell (belief self') i j =
                   weighted_average weight (belief self) (belief other) (i, j))))"
    using merge_average_result[of other n self weight] by blast
qed

theorem merge_adopts_or_averages_witness:
  "merge_with_other_belief
     \<lparr>grid_size = 2, belief = [[1 / 2, 1 / 2], [0, 0]], fire_found = True,
      fire_location = Some (0, 0)\<rparr>
     \<lparr>grid_size = 2, belief = [[0, 0], [0, 1]], fire_found = True,
      fire_location = Some (1, 1)\<rparr> (1 / 2)
   = Inr \<lparr>grid_size = 2, belief = [[0, 0], [0, 1]], fire_found = True,
          fire_location = Some (1, 1)\<rparr>
   \<and> merge_with_other_belief
       \<lparr>grid_size = 2, belief = [[1 / 2, 1 / 2], [0, 0]], fire_found = False,
        fire_location = None\<rparr>
       \<lparr>grid_size = 2, belief = [[0, 0], [0, 0]], fire_found = False,
        fire_location = None\<rparr> (1 / 4)
     = Inr \<lparr>grid_size = 2, belief = [[1 / 2, 1 / 2], [0, 0]], fire_found = False,
            fire_location = None\<rparr>
   \<and> average_mass 2 (1 / 4) [[1 / 2, 1 / 2], [0, 0]] [[0, 0], [0, 0]] = 1 / 4
   \<and> np_sum [[1 / 2, 1 / 2], [0, 0]] = 1"
proof -
  let ?s1 = "\<lparr>grid_size = 2, belief = [[1 / 2, 1 / 2], [0, 0 :: real]], fire_found = True,
      fire_location = Some (0, 0)\<rparr>"
  let ?o1 = "\<lparr>grid_size = 2, belief = [[0, 0], [0, 1 :: real]], fire_found = True,
      fire_location = Some (1, 1)\<rparr>"
  let ?s2 = "\<lparr>grid_size = 2, belief = [[1 / 2, 1 / 2], [0, 0 :: real]], fire_found = False,
      fire_location = None\<rparr>"
  let ?o2 = "\<lparr>grid_size = 2, belief = [[0, 0], [0, 0 :: real]], fire_found = False,
      fire_location = None\<rparr>"
  have adopt: "merge_with_other_belief ?s1 ?o1 (1 / 2) = Inr ?o1"
    using merge_adopts_or_averages[of ?o1 ?s1 "1 / 2" 2] by simp
  have mass: "average_mass 2 (1 / 4) (belief ?s2) (belief ?o2) = 1 / 4"
    by code_simp
  have run: "merge_with_other_belief ?s2 ?o2 (1 / 4) = Inr ?s2"
    by code_simp
  have wf: "rect (nat 2) (nat 2) (belief ?s2)" "rect (nat 2) (nat 2) (belief ?o2)"
    by (simp_all add: rect_def)
  from merge_adopts_or_averages[of ?o2 ?s2 "1 / 4" 2] wf mass
  obtain self' where "merge_with_other_belief ?s2 ?o2 (1 / 4) = Inr self'"
    and "np_sum (belief self') = 1"
    by auto
  with run have "np_sum (belief ?s2) = 1" by simp
  with adopt run mass show ?thesis by simp
qed

text \<open>
  C8. On a non-empty \<open>N \<times> N\<close> belief grid \<open>get_most_likely_location\<close> returns an
  in-range cell \<open>(i, j)\<close> that no cell exceeds, and every cell \<open>(i', j')\<close> holding the same
  value comes later in row-major order: \<open>i < i'\<close>, or \<open>i = i'\<close> and \<open>j \<le> j'\<close>.
\<close>

theorem most_likely_location_first_maximum:
  assumes "1 \<le> grid_size self"
    and "rect (nat (grid_size self)) (nat (grid_size self)) (belief self)"
  shows "\<exists>i j. get_most_likely_location self = Inr (i, j)
           \<and> 0 \<le> i \<and> i < grid_size self \<and> 0 \<le> j \<and> j < grid_size self
           \<and> (\<forall>i' j'. 0 \<le> i' \<and> i' < grid_size self \<and> 0 \<le> j' \<and> j' < grid_size self \<longrightarrow>
                  cell (belief self) i' j' \<le> cell (belief self) i j)
           \<and> (\<forall>i' j'. 0 \<le> i' \<and> i' < grid_size self \<and> 0 \<le> j' \<and> j' < grid_size self
                    \<and> cell (belief self) i' j' = cell (belief self) i j \<longrightarrow>
                  i < i' \<or> (i = i' \<and> j \<le> j'))"
proof -
  let ?n = "grid_size self" and ?m = "belief self"
  have pos: "0 < nat ?n" using assms(1) by simp
  from most_likely_nat[OF assms(2) pos pos]
  obtain a b where k: "np_argmax ?m = Inr (a * nat ?n + b)" and ab: "a < nat ?n" "b < nat ?n"
    and un: "np_unravel_index (a * nat ?n + b) (shape ?m) = Inr (int a, int b)"
    and mx: "\<forall>a' b'. a' < nat ?n \<and> b' < nat ?n \<longrightarrow> ?m ! a' ! b' \<le> ?m ! a ! b"
    and first: "\<forall>a' b'. a' < nat ?n \<and> b' < nat ?n \<and> ?m ! a' ! b' = ?m ! a ! b \<longrightarrow>
                  a < a' \<or> (a = a' \<and> b \<le> b')"
    by blast
  have loc: "get_most_likely_location self = Inr (int a, int b)"
    using k un by (simp add: get_most_likely_location_def)
  have c1: "\<forall>i' j'. 0 \<le> i' \<and> i' < ?n \<and> 0 \<le> j' \<and> j' < ?n \<longrightarrow>
                  cell ?m i' j' \<le> cell ?m (int a) (int b)"
    using mx by (simp add: cell_def)
  have c2: "\<forall>i' j'. 0 \<le> i' \<and> i' < ?n \<and> 0 \<le> j' \<and> j' < ?n
                    \<and> cell ?m i' j' = cell ?m (int a) (int b) \<longrightarrow>
                  int a < i' \<or> (int a = i' \<and> int b \<le> j')"
  proof (intro allI impI)
    fix i' j' assume h: "0 \<le> i' \<and> i' < ?n \<and> 0 \<le> j' \<and> j' < ?n
                    \<and> cell ?m i' j' = cell ?m (int a) (int b)"
    then have "nat i' < nat ?n \<and> nat j' < nat ?n \<and> ?m ! nat i' ! nat j' = ?m ! a ! b"
      by (simp add: cell_def)
    with first have "a < nat i' \<or> (a = nat i' \<and> b \<le> nat j')" by blast
    then show "int a < i' \<or> (int a = i' \<and> int b \<le> j')" using h by auto
  qed
  have "get_most_likely_location self = Inr (int a, int b)
           \<and> 0 \<le> int a \<and> int a < ?n \<and> 0 \<le> int b \<and> int b < ?n
           \<and> (\<forall>i' j'. 0 \<le> i' \<and> i' < ?n \<and> 0 \<le> j' \<and> j' < ?n \<longrightarrow>
                  cell ?m i' j' \<le> cell ?m (int a) (int b))
           \<and> (\<forall>i' j'. 0 \<le> i' \<and> i' < ?n \<and> 0 \<le> j' \<and> j' < ?n
                    \<and> cell ?m i' j' = cell ?m (int a) (int b) \<longrightarrow>
                  int a < i' \<or> (int a = i' \<and> int b \<le> j'))"
    using loc ab c1 c2 by (simp add: zless_nat_eq_int_zless[symmetric])
  then show ?thesis by blast
qed

theorem most_likely_location_first_maximum_witness:
  "get_most_likely_location
     \<lparr>grid_size = 3, belief = [[0, 1 / 4, 0], [1 / 4, 1 / 4, 0], [0, 0, 1 / 4]],
      fire_found = False, fire_location = None\<rparr> = Inr (0, 1)
   \<and> cell [[0, 1 / 4, 0], [1 / 4, 1 / 4, 0], [0, 0, 1 / 4]] 1 0
       \<le> cell [[0, 1 / 4, 0], [1 / 4, 1 / 4, 0], [0, 0, 1 / 4]] 0 1
   \<and> cell [[0, 1 / 4, 0], [1 / 4, 1 / 4, 0], [0, 0, 1 / 4]] 1 0 = 1 / 4
   \<and> cell [[0, 1 / 4, 0], [1 / 4, 1 / 4, 0], [0, 0, 1 / 4]] 0 1 = 1 / 4"
proof -
  let ?s = "\<lparr>grid_size = 3, belief = [[0, 1 / 4, 0], [1 / 4, 1 / 4, 0], [0, 0, 1 / 4 :: real]],
      fire_found = False, fire_location = None\<rparr>"
  have run: "get_most_likely_location ?s = Inr (0, 1)"
    by code_simp
  have wf: "rect (nat 3) (nat 3) (belief ?s)"
    by (simp add: rect_def)
  from most_likely_location_first_maximum[of ?s] wf
  obtain i j where loc: "get_most_likely_location ?s = Inr (i, j)"
    and mx: "\<forall>i' j'. 0 \<le> i' \<and> i' < 3 \<and> 0 \<le> j' \<and> j' < 3 \<longrightarrow>
               cell (belief ?s) i' j' \<le> cell (belief ?s) i j"
    by auto
  from loc run have "i = 0" "j = 1" by simp_all
  with mx have "cell (belief ?s) 1 0 \<le> cell (belief ?s) 0 1" by simp
  moreover have "cell (belief ?s) 1 0 = 1 / 4" "cell (belief ?s) 0 1 = 1 / 4"
    by (simp_all add: cell_def)
  ultimately show ?thesis using run by simp
qed

text \<open>
  C9. For a belief that satisfies the invariant of the data model, merging it with an
  exact copy of itself succeeds and leaves the belief grid as it was, for every weight.
  The invariant holds of every belief the constructor and the operations produce
  (\<open>BeliefState_invariant\<close>, \<open>update_invariant\<close>, \<open>merge_invariant\<close>); a grid whose sum
  is positive and not 1 would be rescaled by the merge.
\<close>

theorem self_merge_is_identity:
  assumes "belief_invariant self"
  shows "\<exists>self'. merge_with_other_belief self self weight = Inr self'
           \<and> belief self' = belief self"
proof (cases "fire_found self")
  case True
  then show ?thesis by (simp add: merge_with_other_belief_def)
next
  case False
  let ?n = "grid_size self" and ?a = "belief self"
  have n0: "0 \<le> ?n" and ra: "rect (nat ?n) (nat ?n) ?a"
    and total: "np_sum ?a = 1 \<or> np_sum ?a = 0"
    using assms by (simp_all add: belief_invariant_def)
  from np_add_scaled[OF ra ra, of weight]
  obtain m where m: "np_add (scale weight ?a) (scale (1 - weight) ?a) = Inr m"
    and rm: "rect (nat ?n) (nat ?n) m"
    and cm: "\<forall>i j. 0 \<le> i \<and> i < ?n \<and> 0 \<le> j \<and> j < ?n \<longrightarrow>
               cell m i j = weighted_average weight ?a ?a (i, j)"
    using n0 by auto
  have "\<forall>i j. 0 \<le> i \<and> i < ?n \<and> 0 \<le> j \<and> j < ?n \<longrightarrow> cell m i j = cell ?a i j"
    using cm by (simp add: weighted_average_def algebra_simps)
  then have eq: "m = ?a" using grid_eqI[OF rm ra] by simp
  show ?thesis
  proof (cases "0 < np_sum ?a")
    case True
    with total have "np_sum ?a = 1" by auto
    then have "div_scalar ?a (np_sum ?a) = Inr ?a"
      by (simp add: div_scalar_nonzero map_div_one)
    then show ?thesis
      using False m eq True by (simp add: merge_with_other_belief_def)
  next
    case nonpos: False
    then show ?thesis
      using False m eq by (simp add: merge_with_other_belief_def)
  qed
qed

theorem self_merge_is_identity_witness:
  "belief_invariant
     \<lparr>grid_size = 2, belief = [[1 / 2, 1 / 2], [0, 0]], fire_found = False,
      fire_location = None\<rparr>
   \<and> merge_with_other_belief
       \<lparr>grid_size = 2, belief = [[1 / 2, 1 / 2], [0, 0]], fire_found = False,
        fire_location = None\<rparr>
       \<lparr>grid_size = 2, belief = [[1 / 2, 1 / 2], [0, 0]], fire_found = False,
        fire_location = None\<rparr> (1 / 3)
     = Inr \<lparr>grid_size = 2, belief = [[1 / 2, 1 / 2], [0, 0]], fire_found = False,
            fire_location = None\<rparr>"
proof -
  let ?s = "\<lparr>grid_size = 2, belief = [[1 / 2, 1 / 2], [0, 0 :: real]], fire_found = False,
      fire_location = None\<rparr>"
  have inv: "belief_invariant ?s"
    by (simp add: belief_invariant_def rect_def nonneg_def np_sum_def)
  from self_merge_is_identity[OF inv, of "1 / 3"]
  obtain self' where m: "merge_with_other_belief ?s ?s (1 / 3) = Inr self'"
    and b: "belief self' = belief ?s"
    by blast
  have "fire_found self' = False \<and> fire_location self' = None \<and> grid_size self' = 2"
    using m by (simp add: merge_with_other_belief_def split: sum.splits if_splits) auto
  with b have "self' = ?s" by (cases self') simp
  with m inv show ?thesis by simp
qed

text \<open>
  C10. \<open>update_with_observation\<close> never assigns \<open>fire_location\<close>: after any run of
  local observation updates it holds what it held before, and \<open>None\<close> when the run starts
  from a freshly constructed belief, also when an update with \<open>fire_observed = True\<close>
  has set \<open>fire_found\<close>. \<open>merge_with_other_belief\<close> changes it only by taking the
  other's \<open>fire_location\<close> when the other's \<open>fire_found\<close> is set.
\<close>

theorem fire_location_only_changed_by_merge:
  "(update_all self obs = Inr self' \<longrightarrow> fire_location self' = fire_location self)
   \<and> (BeliefState n = Inr s0 \<and> update_all s0 obs = Inr s1 \<longrightarrow> fire_location s1 = None)
   \<and> (merge_with_other_belief self other weight = Inr self'' \<longrightarrow>
        fire_location self'' = (if fire_found other then fire_location other else fire_location self))"
  using update_all_keeps_fire_location[of self obs self']
    update_all_keeps_fire_location[of s0 obs s1] BeliefState_fire_location[of n s0]
    merge_fire_location[of self other weight self'']
  by simp

theorem fire_location_only_changed_by_merge_witness:
  "BeliefState 3
     = Inr \<lparr>grid_size = 3,
            belief = [[1 / 9, 1 / 9, 1 / 9], [1 / 9, 1 / 9, 1 / 9], [1 / 9, 1 / 9, 1 / 9]],
            fire_found = False, fire_location = None\<rparr>
   \<and> update_all
       \<lparr>grid_size = 3,
        belief = [[1 / 9, 1 / 9, 1 / 9], [1 / 9, 1 / 9, 1 / 9], [1 / 9, 1 / 9, 1 / 9]],
        fire_found = False, fire_location = None\<rparr>
       [((0, 0), 3, False), ((2, 2), 3, True)]
     = Inr \<lparr>grid_size = 3, belief = [[0, 0, 0], [0, 1 / 4, 1 / 4], [0, 1 / 4, 1 / 4]],
            fire_found = True, fire_location = None\<rparr>
   \<and> merge_with_other_belief
       \<lparr>grid_size = 3, belief = [[0, 0, 0], [0, 1 / 4, 1 / 4], [0, 1 / 4, 1 / 4]],
        fire_found = True, fire_location = None\<rparr>
       \<lparr>grid_size = 3, belief = [[0, 0, 0], [0, 0, 0], [0, 0, 1]],
        fire_found = True, fire_location = Some (2, 2)\<rparr> (1 / 2)
     = Inr \<lparr>grid_size = 3, belief = [[0, 0, 0], [0, 0, 0], [0, 0, 1]],
            fire_found = True, fire_location = Some (2, 2)\<rparr>"
proof -
  let ?s0 = "\<lparr>grid_size = 3,
        belief = [[1 / 9, 1 / 9, 1 / 9], [1 / 9, 1 / 9, 1 / 9], [1 / 9, 1 / 9, 1 / 9 :: real]],
        fire_found = False, fire_location = None\<rparr>"
  let ?obs = "[((0, 0), 3, False), ((2, 2), 3, True)] :: ((int \<times> int) \<times> int \<times> bool) list"
  let ?b1 = "[[0, 0, 0], [0, 1 / 4, 1 / 4], [0, 1 / 4, 1 / 4 :: real]]"
  let ?other = "\<lparr>grid_size = 3, belief = [[0, 0, 0], [0, 0, 0], [0, 0, 1 :: real]],
        fire_found = True, fire_location = Some (2, 2)\<rparr>"
  have init: "BeliefState 3 = Inr ?s0"
    by code_simp
  let ?s1 = "\<lparr>grid_size = 3, belief = ?b1, fire_found = True, fire_location = None\<rparr>"
  have run: "update_all ?s0 ?obs = Inr ?s1"
    by code_simp
  have merged: "merge_with_other_belief ?s1 ?other (1 / 2) = Inr ?other"
    by code_simp
  from fire_location_only_changed_by_merge[of ?s0 ?obs ?s1 3 ?s0 ?s1 ?other "1 / 2" ?other]
    init run merged
  have "fire_location ?s1 = None \<and> fire_location ?other = Some (2, 2)"
    by simp
  with init run merged show ?thesis by simp
qed

section \<open>Claims about Drone and SearchEnv\<close>

text \<open>
  C4. One call of \<open>step\<close>: the flag it returns is the environment's
  \<open>fire_extinguished\<close>. If the flag was set before the call, it stays set and
  \<open>time_to_extinguish\<close> is unchanged. If it was not, and after the actions and the
  telemetry some drone stands on the fire, the flag is set and \<open>time_to_extinguish\<close> is
  the clock of the first such drone in list order; if no drone stands on the fire, both
  stay as they were. Over any further run of ticks a set flag and its time are frozen.
  This holds for every behaviour of the drones' methods.
\<close>

theorem fire_extinguished_once:
  "(step ops env rng drones actions = ((cost, ext), env', drones', rng') \<longrightarrow>
      ext = fire_extinguished env'
      \<and> (if fire_extinguished env then
            fire_extinguished env' \<and> time_to_extinguish env' = time_to_extinguish env
          else
            (case find (on_fire ops env) drones' of
               None \<Rightarrow> \<not> fire_extinguished env'
                        \<and> time_to_extinguish env' = time_to_extinguish env
             | Some d \<Rightarrow> fire_extinguished env'
                        \<and> time_to_extinguish env' = Some (drone_time ops d))))
   \<and> (fire_extinguished env \<longrightarrow>
        fire_extinguished (fst (run_steps ops env rng drones actionss))
        \<and> time_to_extinguish (fst (run_steps ops env rng drones actionss))
            = time_to_extinguish env)"
proof (rule conjI)
  show "step ops env rng drones actions = ((cost, ext), env', drones', rng') \<longrightarrow>
      ext = fire_extinguished env'
      \<and> (if fire_extinguished env then
            fire_extinguished env' \<and> time_to_extinguish env' = time_to_extinguish env
          else
            (case find (on_fire ops env) drones' of
               None \<Rightarrow> \<not> fire_extinguished env'
                        \<and> time_to_extinguish env' = time_to_extinguish env
             | Some d \<Rightarrow> fire_extinguished env'
                        \<and> time_to_extinguish env' = Some (drone_time ops d)))"
    using step_fire_flags[of ops env rng drones actions cost ext env' drones' rng'] by blast
next
  show "fire_extinguished env \<longrightarrow>
        fire_extinguished (fst (run_steps ops env rng drones actionss))
        \<and> time_to_extinguish (fst (run_steps ops env rng drones actionss))
            = time_to_extinguish env"
    using run_steps_frozen[of env ops rng drones actionss] by blast
qed

theorem fire_extinguished_once_witness:
  "fst (step example_ops
          \<lparr>fire_pos = (1, 2), communication_cost = 2, movement_cost = 1 / 10, total_cost = 0,
       fire_extinguished = False, time_to_extinguish = None, total_communications = 0\<rparr>
          () [(0, Drone 5 3 0 (1 / 20) (1, 1)), (1, Drone 5 3 0 (1 / 20) (3, 3))] [1, 0])
     = (1 / 10, True)
   \<and> time_to_extinguish (fst (snd (step example_ops
          \<lparr>fire_pos = (1, 2), communication_cost = 2, movement_cost = 1 / 10, total_cost = 0,
       fire_extinguished = False, time_to_extinguish = None, total_communications = 0\<rparr>
          () [(0, Drone 5 3 0 (1 / 20) (1, 1)), (1, Drone 5 3 0 (1 / 20) (3, 3))] [1, 0])))
     = Some (1 / 20)
   \<and> map (\<lambda>agent. (position (snd agent), time (snd agent)))
       (fst (snd (run_steps example_ops
          \<lparr>fire_pos = (1, 2), communication_cost = 2, movement_cost = 1 / 10, total_cost = 0,
       fire_extinguished = False, time_to_extinguish = None, total_communications = 0\<rparr>
          () [(0, Drone 5 3 0 (1 / 20) (1, 1)), (1, Drone 5 3 0 (1 / 20) (3, 3))] [[1, 0], [0, 2]])))
     = [((1, 2), 1 / 10), ((3, 2), 1 / 10)]
   \<and> fire_extinguished (fst (run_steps example_ops
          \<lparr>fire_pos = (1, 2), communication_cost = 2, movement_cost = 1 / 10, total_cost = 0,
       fire_extinguished = False, time_to_extinguish = None, total_communications = 0\<rparr>
          () [(0, Drone 5 3 0 (1 / 20) (1, 1)), (1, Drone 5 3 0 (1 / 20) (3, 3))] [[1, 0], [0, 2]]))
   \<and> time_to_extinguish (fst (run_steps example_ops
          \<lparr>fire_pos = (1, 2), communication_cost = 2, movement_cost = 1 / 10, total_cost = 0,
       fire_extinguished = False, time_to_extinguish = None, total_communications = 0\<rparr>
          () [(0, Drone 5 3 0 (1 / 20) (1, 1)), (1, Drone 5 3 0 (1 / 20) (3, 3))] [[1, 0], [0, 2]]))
     = Some (1 / 20)"
proof -
  let ?E0 = "\<lparr>fire_pos = (1, 2), communication_cost = 2, movement_cost = 1 / 10, total_cost = 0,
       fire_extinguished = False, time_to_extinguish = None, total_communications = 0\<rparr>"
  let ?DS0 = "[(0, Drone 5 3 0 (1 / 20) (1, 1)), (1, Drone 5 3 0 (1 / 20) (3, 3))]"
  obtain cost ext env' drones' rng' where
    s: "step example_ops ?E0 () ?DS0 [1, 0] = ((cost, ext), env', drones', rng')"
    by (metis prod.exhaust)
  have who: "find (on_fire example_ops ?E0) (fst (snd (snd (step example_ops ?E0 () ?DS0 [1, 0]))))
      = Some (0, \<lparr>drone.grid_size = 5, window_size = 3, time = 1 / 20, dt = 1 / 20,
                   position = (1, 2), drone.fire_found = True,
                   history = [(1, 1, False, 0), (1, 2, True, 1 / 20)]\<rparr>)"
    by code_simp
  have c: "fst (fst (step example_ops ?E0 () ?DS0 [1, 0])) = 1 / 10"
    by code_simp
  from fire_extinguished_once[of example_ops ?E0 "()" ?DS0 "[1, 0]" cost ext env' drones' rng']
    s who
  have first: "ext" "fire_extinguished env'" "time_to_extinguish env' = Some (1 / 20)"
    by (simp_all add: example_ops_def)
  from fire_extinguished_once[of example_ops env' rng' drones' _ _ _ _ _ _ "[[0, 2]]"] first
  have frozen: "fire_extinguished (fst (run_steps example_ops env' rng' drones' [[0, 2]]))"
    "time_to_extinguish (fst (run_steps example_ops env' rng' drones' [[0, 2]])) = Some (1 / 20)"
    by simp_all
  have r: "run_steps example_ops ?E0 () ?DS0 [[1, 0], [0, 2]]
      = run_steps example_ops env' rng' drones' [[0, 2]]"
    using s by simp
  have where_to: "map (\<lambda>agent. (position (snd agent), time (snd agent)))
       (fst (snd (run_steps example_ops ?E0 () ?DS0 [[1, 0], [0, 2]])))
     = [((1, 2), 1 / 10), ((3, 2), 1 / 10)]"
    by code_simp
  show ?thesis
    using s c first frozen where_to unfolding r by simp
qed

text \<open>
  C5. One call of \<open>step\<close>: the cost it returns is \<open>communication_cost\<close> for every pair
  of \<^verbatim>\<open>zip(drones, actions)\<close> whose action returns a packet plus \<open>movement_cost\<close> for
  every pair whose action returns none and is not 0; a stay without a packet adds
  nothing. \<open>total_communications\<close> grows by the number of packets and \<open>total_cost\<close> by
  the returned cost. The witness is the tick in which agent 0 communicates and agent 1
  stays: one packet, one communication, cost \<open>communication_cost\<close> and no movement cost.
\<close>

theorem step_cost_accounting:
  assumes "step ops env rng drones actions = ((cost, ext), env', drones', rng')"
  shows "cost = communication_cost env
                  * real (length (filter (returns_packet ops env) (zip drones actions)))
                + movement_cost env
                  * real (length (filter (moves_silently ops env) (zip drones actions)))
         \<and> total_communications env'
             = total_communications env
               + int (length (filter (returns_packet ops env) (zip drones actions)))
         \<and> total_cost env' = total_cost env + cost"
  using step_result[OF assms] by (auto simp: check_fire_frame)

theorem step_cost_accounting_witness:
  "fst (step example_ops
          \<lparr>fire_pos = (1, 2), communication_cost = 2, movement_cost = 1 / 10, total_cost = 0,
       fire_extinguished = False, time_to_extinguish = None, total_communications = 0\<rparr>
          () [(0, Drone 5 3 0 (1 / 20) (1, 1)), (1, Drone 5 3 0 (1 / 20) (3, 3))] [5, 0])
     = (2, False)
   \<and> total_communications (fst (snd (step example_ops
          \<lparr>fire_pos = (1, 2), communication_cost = 2, movement_cost = 1 / 10, total_cost = 0,
       fire_extinguished = False, time_to_extinguish = None, total_communications = 0\<rparr>
          () [(0, Drone 5 3 0 (1 / 20) (1, 1)), (1, Drone 5 3 0 (1 / 20) (3, 3))] [5, 0])))
     = 1
   \<and> total_cost (fst (snd (step example_ops
          \<lparr>fire_pos = (1, 2), communication_cost = 2, movement_cost = 1 / 10, total_cost = 0,
       fire_extinguished = False, time_to_extinguish = None, total_communications = 0\<rparr>
          () [(0, Drone 5 3 0 (1 / 20) (1, 1)), (1, Drone 5 3 0 (1 / 20) (3, 3))] [5, 0])))
     = 2
   \<and> length (filter (returns_packet example_ops
          \<lparr>fire_pos = (1, 2), communication_cost = 2, movement_cost = 1 / 10, total_cost = 0,
       fire_extinguished = False, time_to_extinguish = None, total_communications = 0\<rparr>)
        (zip [(0, Drone 5 3 0 (1 / 20) (1, 1)), (1, Drone 5 3 0 (1 / 20) (3, 3))] [5, 0])) = 1
   \<and> length (filter (moves_silently example_ops
          \<lparr>fire_pos = (1, 2), communication_cost = 2, movement_cost = 1 / 10, total_cost = 0,
       fire_extinguished = False, time_to_extinguish = None, total_communications = 0\<rparr>)
        (zip [(0, Drone 5 3 0 (1 / 20) (1, 1)), (1, Drone 5 3 0 (1 / 20) (3, 3))] [5, 0])) = 0"
proof -
  let ?E0 = "\<lparr>fire_pos = (1, 2), communication_cost = 2, movement_cost = 1 / 10, total_cost = 0,
       fire_extinguished = False, time_to_extinguish = None, total_communications = 0\<rparr>"
  let ?DS0 = "[(0, Drone 5 3 0 (1 / 20) (1, 1)), (1, Drone 5 3 0 (1 / 20) (3, 3))]"
  obtain cost ext env' drones' rng' where
    s: "step example_ops ?E0 () ?DS0 [5, 0] = ((cost, ext), env', drones', rng')"
    by (metis prod.exhaust)
  have n1: "length (filter (returns_packet example_ops ?E0) (zip ?DS0 [5, 0])) = 1"
    by code_simp
  have n2: "length (filter (moves_silently example_ops ?E0) (zip ?DS0 [5, 0])) = 0"
    by code_simp
  have e: "snd (fst (step example_ops ?E0 () ?DS0 [5, 0])) = False"
    by code_simp
  from step_cost_accounting[OF s] n1 n2
  have "cost = 2" "total_communications env' = 1" "total_cost env' = 2"
    by simp_all
  then show ?thesis using s e n1 n2 by simp
qed




text \<open>
  C7. The claim fails at the end of the 64-bit range: on a grid of size \<open>2\<^sup>6\<^sup>3\<close> a drone
  at \<open>(0, 2\<^sup>6\<^sup>3 - 1)\<close> is inside \<open>[0, N - 1]\<^sup>2\<close>; action 1 adds 1 to \<open>y\<close>, the sum wraps
  to \<open>- 2\<^sup>6\<^sup>3\<close> before \<^verbatim>\<open>min\<close> clamps it, and the drone ends at \<open>(0, - 2\<^sup>6\<^sup>3)\<close>, off the
  grid.
\<close>

theorem action_wraps_counterexample:
  "drone.grid_size (Drone (2 ^ 63) 3 0 (1 / 20) (0, 9223372036854775807)) = 2 ^ 63
   \<and> position (Drone (2 ^ 63) 3 0 (1 / 20) (0, 9223372036854775807))
       = (0, 9223372036854775807)
   \<and> sint (9223372036854775807 :: int64) = 2 ^ 63 - 1
   \<and> (action (Drone (2 ^ 63) 3 0 (1 / 20) (0, 9223372036854775807)) 1 (0, 0)
        :: drone_error + drone \<times> unit option)
     = Inr (\<lparr>drone.grid_size = 2 ^ 63, window_size = 3, time = 1 / 20, dt = 1 / 20,
              position = (0, 9223372036854775808), drone.fire_found = False,
              history = [(0, 9223372036854775807, False, 0),
                         (0, 9223372036854775808, False, 1 / 20)]\<rparr>,
            None)
   \<and> sint (9223372036854775808 :: int64) = - (2 ^ 63)"
  by (simp add: action_def Drone_def observe_def state_def fits_int64_def py_min_def Let_def)

text \<open>
  C7, as amended. On a grid of size \<open>N \<le> 2\<^sup>6\<^sup>3 - 1\<close>, for a drone whose position lies in
  \<open>[0, N - 1]\<^sup>2\<close> and half of whose window size fits in 64 bits, \<open>action\<close> completes for
  every action id and the position after it lies in \<open>[0, N - 1]\<^sup>2\<close>; each coordinate moves
  by at most one cell, and a move against the boundary (up at \<open>y = N - 1\<close>, down at
  \<open>y = 0\<close>, left at \<open>x = 0\<close>, right at \<open>x = N - 1\<close>) leaves the position where it was.
\<close>

theorem action_stays_on_grid:
  assumes "drone.grid_size self \<le> 2 ^ 63 - 1"
    and "0 \<le> sint (fst (position self))"
    and "sint (fst (position self)) \<le> drone.grid_size self - 1"
    and "0 \<le> sint (snd (position self))"
    and "sint (snd (position self)) \<le> drone.grid_size self - 1"
    and "fits_int64 (window_size self div 2)"
  shows "\<exists>d'. (action self a fp :: drone_error + drone \<times> 'p option) = Inr (d', None)
           \<and> 0 \<le> sint (fst (position d'))
           \<and> sint (fst (position d')) \<le> drone.grid_size self - 1
           \<and> 0 \<le> sint (snd (position d'))
           \<and> sint (snd (position d')) \<le> drone.grid_size self - 1
           \<and> \<bar>sint (fst (position d')) - sint (fst (position self))\<bar> \<le> 1
           \<and> \<bar>sint (snd (position d')) - sint (snd (position self))\<bar> \<le> 1
           \<and> (a = 1 \<and> sint (snd (position self)) = drone.grid_size self - 1 \<longrightarrow>
                  position d' = position self)
           \<and> (a = 2 \<and> sint (snd (position self)) = 0 \<longrightarrow> position d' = position self)
           \<and> (a = 3 \<and> sint (fst (position self)) = 0 \<longrightarrow> position d' = position self)
           \<and> (a = 4 \<and> sint (fst (position self)) = drone.grid_size self - 1 \<longrightarrow>
                  position d' = position self)
           \<and> drone.grid_size d' = drone.grid_size self"
proof -
  let ?n = "drone.grid_size self"
  let ?x = "fst (position self)" and ?y = "snd (position self)"
  have fb: "fits_int64 (?n - 1)" using assms(1,2,3) by (simp add: fits_int64_def)
  from action_completes[OF assms(6), of a fp] fb
  obtain d' where run: "(action self a fp :: drone_error + drone \<times> 'p option) = Inr (d', None)"
    by blast
  note ret = action_returned[OF run]
  have xs: "sint (?x + 1) = sint ?x + 1" using assms(1,3) by (intro sint_succ) simp
  have ys: "sint (?y + 1) = sint ?y + 1" using assms(1,5) by (intro sint_succ) simp
  have xp: "sint (?x - 1) = sint ?x - 1" using assms(2) by (intro sint_pred) simp
  have yp: "sint (?y - 1) = sint ?y - 1" using assms(4) by (intro sint_pred) simp
  have g: "drone.grid_size d' = ?n" using ret by simp
  have pos: "sint (fst (position d')) =
      (if a = 3 then max 0 (sint ?x - 1) else if a = 4 then min (?n - 1) (sint ?x + 1)
       else sint ?x)
    \<and> sint (snd (position d')) =
      (if a = 1 then min (?n - 1) (sint ?y + 1) else if a = 2 then max 0 (sint ?y - 1)
       else sint ?y)"
  proof -
    consider "a = 1" | "a = 2" | "a = 3" | "a = 4" | "a \<noteq> 1 \<and> a \<noteq> 2 \<and> a \<noteq> 3 \<and> a \<noteq> 4"
      by blast
    then show ?thesis
    proof cases
      case 1
      with ret have f: "fst (position d') = ?x"
        and m: "py_min (?n - 1) (?y + 1) = Inr (snd (position d'))" by simp_all
      from py_min_fitting[OF fb, of "?y + 1"] m
      have "sint (snd (position d')) = min (?n - 1) (sint (?y + 1))" by simp
      then show ?thesis using 1 f ys by simp
    next
      case 2
      with ret have "position d' = (?x, py_max0 (?y - 1))" by simp
      then show ?thesis using 2 yp by (simp add: sint_py_max0)
    next
      case 3
      with ret have "position d' = (py_max0 (?x - 1), ?y)" by simp
      then show ?thesis using 3 xp by (simp add: sint_py_max0)
    next
      case 4
      with ret have f: "snd (position d') = ?y"
        and m: "py_min (?n - 1) (?x + 1) = Inr (fst (position d'))" by simp_all
      from py_min_fitting[OF fb, of "?x + 1"] m
      have "sint (fst (position d')) = min (?n - 1) (sint (?x + 1))" by simp
      then show ?thesis using 4 f xs by simp
    next
      case 5
      with ret have "position d' = position self" by simp
      then show ?thesis using 5 by simp
    qed
  qed
  have same: "sint (fst (position d')) = sint ?x \<and> sint (snd (position d')) = sint ?y
      \<Longrightarrow> position d' = position self"
    by (auto intro!: signed_word_eqI simp: prod_eq_iff)
  have b1: "a = 1 \<and> sint ?y = ?n - 1 \<longrightarrow> position d' = position self"
    using pos same by auto
  have b2: "a = 2 \<and> sint ?y = 0 \<longrightarrow> position d' = position self"
    using pos same by auto
  have b3: "a = 3 \<and> sint ?x = 0 \<longrightarrow> position d' = position self"
    using pos same by auto
  have b4: "a = 4 \<and> sint ?x = ?n - 1 \<longrightarrow> position d' = position self"
    using pos same by auto
  have rng: "0 \<le> sint (fst (position d')) \<and> sint (fst (position d')) \<le> ?n - 1
      \<and> 0 \<le> sint (snd (position d')) \<and> sint (snd (position d')) \<le> ?n - 1
      \<and> \<bar>sint (fst (position d')) - sint ?x\<bar> \<le> 1
      \<and> \<bar>sint (snd (position d')) - sint ?y\<bar> \<le> 1"
    using pos assms(2-5) by (auto simp: min_def max_def)
  show ?thesis using run rng b1 b2 b3 b4 g by blast
qed

theorem action_stays_on_grid_witness:
  "drone.grid_size (Drone 5 3 0 (1 / 20) (2, 4)) = 5
   \<and> position (Drone 5 3 0 (1 / 20) (2, 4)) = (2, 4)
   \<and> (action (Drone 5 3 0 (1 / 20) (2, 4)) 1 (0, 0) :: drone_error + drone \<times> unit option)
     = Inr (\<lparr>drone.grid_size = 5, window_size = 3, time = 1 / 20, dt = 1 / 20,
              position = (2, 4), drone.fire_found = False,
              history = [(2, 4, False, 0), (2, 4, False, 1 / 20)]\<rparr>,
            None)
   \<and> (action (Drone 5 3 0 (1 / 20) (2, 3)) 1 (0, 0) :: drone_error + drone \<times> unit option)
     = Inr (\<lparr>drone.grid_size = 5, window_size = 3, time = 1 / 20, dt = 1 / 20,
              position = (2, 4), drone.fire_found = False,
              history = [(2, 3, False, 0), (2, 4, False, 1 / 20)]\<rparr>,
            None)"
proof -
  let ?d = "Drone 5 3 0 (1 / 20) (2, 4)"
  have p: "position ?d = (2, 4)" "drone.grid_size ?d = 5" "window_size ?d = 3"
    by (simp_all add: Drone_def Let_def)
  have h: "drone.grid_size ?d \<le> 2 ^ 63 - 1" "0 \<le> sint (fst (position ?d))"
    "sint (fst (position ?d)) \<le> drone.grid_size ?d - 1" "0 \<le> sint (snd (position ?d))"
    "sint (snd (position ?d)) \<le> drone.grid_size ?d - 1" "fits_int64 (window_size ?d div 2)"
    by (simp_all add: p fits_int64_def)
  from action_stays_on_grid[where 'p = unit, OF h, of 1 "(0, 0)"] p
  obtain d' where run: "(action ?d 1 (0, 0) :: drone_error + drone \<times> unit option) = Inr (d', None)"
    and stay: "position d' = (2, 4)"
    by auto
  have e1: "(action ?d 1 (0, 0) :: drone_error + drone \<times> unit option)
     = Inr (\<lparr>drone.grid_size = 5, window_size = 3, time = 1 / 20, dt = 1 / 20,
              position = (2, 4), drone.fire_found = False,
              history = [(2, 4, False, 0), (2, 4, False, 1 / 20)]\<rparr>,
            None)"
    by (simp add: action_def Drone_def observe_def state_def fits_int64_def py_min_def Let_def)
  have e2: "(action (Drone 5 3 0 (1 / 20) (2, 3)) 1 (0, 0) :: drone_error + drone \<times> unit option)
     = Inr (\<lparr>drone.grid_size = 5, window_size = 3, time = 1 / 20, dt = 1 / 20,
              position = (2, 4), drone.fire_found = False,
              history = [(2, 3, False, 0), (2, 4, False, 1 / 20)]\<rparr>,
            None)"
    by (simp add: action_def Drone_def observe_def state_def fits_int64_def py_min_def Let_def)
  from run stay e1 e2 p show ?thesis by simp
qed


end
